theory Spec2Isabelle
  imports Complex_Main "HOL-Library.Sublist" "HOL-Library.Multiset"
begin

section \<open>Python values, exceptions and numbers\<close>

text \<open>
  A feedback text is a Python value: \<open>None\<close>, a \<open>str\<close>, or a non-string scalar (the tests
  pass \<open>123\<close>). A \<open>str\<close> is modelled as a list of code points below 256, one \<open>char\<close> each.
  An exception is a value of type \<open>error\<close>.
\<close>

datatype pyval = PyNone | PyStr string | PyInt int

datatype error = ValueError | IndexError | LibraryError

fun truthy :: "pyval \<Rightarrow> bool" where
  "truthy PyNone = False"
| "truthy (PyStr s) = (s \<noteq> [])"
| "truthy (PyInt n) = (n \<noteq> 0)"

text \<open>
  A Python float is an IEEE 754 double, modelled by the real number it stands for. Every
  arithmetic operation on floats, the division of two integers, and the reading of a
  decimal literal give \<open>fl\<close> of the exact result: the nearest double, a tie going to the
  one with the even significand. Infinities and \<open>nan\<close> are not modelled: the estimates stay
  within \<open>[-1, 1]\<close> and the counts are small, so that no operation overflows.
\<close>

definition round_half_even :: "real \<Rightarrow> int" where
  "round_half_even y =
     (let f = \<lfloor>y\<rfloor>; d = y - of_int f
      in if d < 1 / 2 then f else if 1 / 2 < d then f + 1 else if even f then f else f + 1)"

text \<open>
  The binade of \<open>x\<close> is the exponent \<open>e\<close> with \<open>2 ^ e \<le> |x| < 2 ^ (e + 1)\<close>, found by
  halving or doubling, and not below -1022, where the subnormal numbers begin. The
  doubles of a binade are the multiples of \<open>ulp\<close>: 53 significant bits.
\<close>

function binade_up :: "real \<Rightarrow> int \<Rightarrow> int" where
  "binade_up x e = (if 2 \<le> x then binade_up (x / 2) (e + 1) else e)"
  by pat_completeness auto
termination
proof (relation "measure (\<lambda>(x, e). nat \<lfloor>x\<rfloor>)")
  show "wf (measure (\<lambda>(x :: real, e :: int). nat \<lfloor>x\<rfloor>))" by simp
next
  fix x :: real and e :: int
  assume "2 \<le> x"
  then have "\<lfloor>x / 2\<rfloor> < \<lfloor>x\<rfloor>" by (simp add: floor_less_iff) linarith
  moreover from \<open>2 \<le> x\<close> have "0 < \<lfloor>x\<rfloor>" by simp
  ultimately show "((x / 2, e + 1), (x, e)) \<in> measure (\<lambda>(x, e). nat \<lfloor>x\<rfloor>)" by simp
qed

function binade_down :: "real \<Rightarrow> int \<Rightarrow> int" where
  "binade_down x e = (if x < 1 \<and> - 1022 < e then binade_down (2 * x) (e - 1) else e)"
  by pat_completeness auto
termination
  by (relation "measure (\<lambda>(x, e). nat (e + 1022))") auto

declare binade_up.simps [simp del] binade_down.simps [simp del]

definition binade :: "real \<Rightarrow> int" where
  "binade x = (if 1 \<le> \<bar>x\<bar> then binade_up \<bar>x\<bar> 0 else binade_down \<bar>x\<bar> 0)"

definition ulp :: "real \<Rightarrow> real" where
  "ulp x = (let e = binade x - 52 in if 0 \<le> e then 2 ^ nat e else 1 / 2 ^ nat (- e))"

definition fl :: "real \<Rightarrow> real" where
  "fl x = (if x = 0 then 0 else of_int (round_half_even (x / ulp x)) * ulp x)"

text \<open>
  \<open>round(x, ndigits)\<close> of a float: the decimal expansion of the double \<open>x\<close> is rounded at
  \<open>ndigits\<close> places, a tie to the even digit, and the double nearest to that decimal is
  returned.
\<close>

definition py_round :: "real \<Rightarrow> nat \<Rightarrow> real" where
  "py_round x ndigits = fl (of_int (round_half_even (x * 10 ^ ndigits)) / 10 ^ ndigits)"

section \<open>Character classes and string operations\<close>

text \<open>\<open>str.isspace\<close>, which is also \<open>\s\<close> of \<open>re\<close> and what \<open>split\<close> and \<open>strip\<close> use.\<close>

definition is_space :: "char \<Rightarrow> bool" where
  "is_space c = (of_char c \<in> {9, 10, 11, 12, 13, 28, 29, 30, 31, 32, 133, 160 :: nat})"

text \<open>\<open>\d\<close> and \<open>\w\<close> of \<open>re\<close> on \<open>str\<close> patterns.\<close>

definition is_digit :: "char \<Rightarrow> bool" where
  "is_digit c = (let n = (of_char c :: nat) in 48 \<le> n \<and> n \<le> 57)"

definition is_word :: "char \<Rightarrow> bool" where
  "is_word c =
     (let n = (of_char c :: nat)
      in (48 \<le> n \<and> n \<le> 57) \<or> (65 \<le> n \<and> n \<le> 90) \<or> n = 95 \<or> (97 \<le> n \<and> n \<le> 122)
         \<or> n = 170 \<or> n = 178 \<or> n = 179 \<or> n = 181 \<or> n = 185 \<or> n = 186
         \<or> (188 \<le> n \<and> n \<le> 190) \<or> (192 \<le> n \<and> n \<le> 214) \<or> (216 \<le> n \<and> n \<le> 246)
         \<or> (248 \<le> n \<and> n \<le> 255))"

text \<open>Membership in \<open>string.punctuation\<close>.\<close>

definition is_punct :: "char \<Rightarrow> bool" where
  "is_punct c =
     (let n = (of_char c :: nat)
      in (33 \<le> n \<and> n \<le> 47) \<or> (58 \<le> n \<and> n \<le> 64) \<or> (91 \<le> n \<and> n \<le> 96)
         \<or> (123 \<le> n \<and> n \<le> 126))"

definition lower_char :: "char \<Rightarrow> char" where
  "lower_char c =
     (let n = (of_char c :: nat)
      in if (65 \<le> n \<and> n \<le> 90) \<or> (192 \<le> n \<and> n \<le> 214) \<or> (216 \<le> n \<and> n \<le> 222)
         then char_of (n + 32) else c)"

definition py_lower :: "string \<Rightarrow> string" where
  "py_lower s = map lower_char s"

text \<open>\<open>s.split()\<close>: the maximal runs of non-whitespace characters; \<open>w\<close> is the run being read.\<close>

fun split_acc :: "string \<Rightarrow> string \<Rightarrow> string list" where
  "split_acc w [] = (if w = [] then [] else [w])"
| "split_acc w (c # cs) =
     (if is_space c then (if w = [] then split_acc [] cs else w # split_acc [] cs)
      else split_acc (w @ [c]) cs)"

definition py_split :: "string \<Rightarrow> string list" where
  "py_split s = split_acc [] s"

fun py_join :: "string \<Rightarrow> string list \<Rightarrow> string" where
  "py_join sep [] = []"
| "py_join sep [x] = x"
| "py_join sep (x # y # ys) = x @ sep @ py_join sep (y # ys)"

definition py_strip :: "string \<Rightarrow> string" where
  "py_strip s = rev (dropWhile is_space (rev (dropWhile is_space s)))"

section \<open>The regular expressions of the two normalizers\<close>

text \<open>
  \<open>re.sub(pattern, '', text)\<close> for a pattern that never matches the empty string: scan from
  the left; where the pattern matches, delete the match and go on behind it; elsewhere keep
  the character. The matcher \<open>m prev s\<close> gives the length of the match that starts at the
  suffix \<open>s\<close> (0 for none), \<open>prev\<close> being the character before it; \<open>skip\<close> counts the
  characters of the current match still to delete.
\<close>

fun re_sub :: "(char option \<Rightarrow> string \<Rightarrow> nat) \<Rightarrow> char option \<Rightarrow> nat \<Rightarrow> string \<Rightarrow> string" where
  "re_sub m prev skip [] = []"
| "re_sub m prev (Suc k) (c # cs) = re_sub m (Some c) k cs"
| "re_sub m prev 0 (c # cs) =
     (case m prev (c # cs) of
        0 \<Rightarrow> c # re_sub m (Some c) 0 cs
      | Suc n \<Rightarrow> re_sub m (Some c) n cs)"

definition non_space_run :: "string \<Rightarrow> string" where
  "non_space_run s = takeWhile (\<lambda>c. \<not> is_space c) s"

text \<open>A literal followed by \<open>\S+\<close> (greedy: to the end of the run), as in \<open>http\S+\<close>.\<close>

definition match_lit_S :: "string \<Rightarrow> string \<Rightarrow> nat" where
  "match_lit_S p s =
     (if take (length p) s = p \<and> non_space_run (drop (length p) s) \<noteq> []
      then length p + length (non_space_run (drop (length p) s)) else 0)"

text \<open>One character followed by \<open>\w+\<close>, as in \<open>@\w+\<close>.\<close>

definition match_sigil_w :: "char \<Rightarrow> string \<Rightarrow> nat" where
  "match_sigil_w g s =
     (case s of [] \<Rightarrow> 0
      | c # cs \<Rightarrow> if c = g \<and> takeWhile is_word cs \<noteq> [] then 1 + length (takeWhile is_word cs) else 0)"

text \<open>
  \<open>\S+@\S+\<close>: the rest of the run, when it has an \<open>@\<close> that is neither its first nor its
  last character.
\<close>

definition match_email :: "string \<Rightarrow> nat" where
  "match_email s =
     (let run = non_space_run s
      in if CHR ''@'' \<in> set (butlast (tl run)) then length run else 0)"

text \<open>\<open>\b\d+\b\<close>: a run of digits with no word character on either side.\<close>

definition match_number :: "char option \<Rightarrow> string \<Rightarrow> nat" where
  "match_number prev s =
     (let ds = takeWhile is_digit s
      in if ds \<noteq> []
            \<and> (case prev of None \<Rightarrow> True | Some p \<Rightarrow> \<not> is_word p)
            \<and> (case dropWhile is_digit s of [] \<Rightarrow> True | r # _ \<Rightarrow> \<not> is_word r)
         then length ds else 0)"

text \<open>\<open>a|b\<close>: the first alternative that matches.\<close>

definition alt :: "nat \<Rightarrow> nat \<Rightarrow> nat" where
  "alt a b = (if 0 < a then a else b)"

definition match_url :: "string \<Rightarrow> nat" where
  "match_url s = alt (match_lit_S ''http'' s) (match_lit_S ''www.'' s)"

definition match_mention :: "string \<Rightarrow> nat" where
  "match_mention s = alt (match_sigil_w CHR ''@'' s) (match_sigil_w CHR ''#'' s)"

text \<open>\<open>re.sub(r'\s+', ' ', text)\<close>; \<open>in_run\<close> says that the previous character was whitespace.\<close>

fun sub_ws :: "bool \<Rightarrow> string \<Rightarrow> string" where
  "sub_ws in_run [] = []"
| "sub_ws in_run (c # cs) =
     (if is_space c then (if in_run then sub_ws True cs else CHR '' '' # sub_ws True cs)
      else c # sub_ws False cs)"

section \<open>SentimentAnalyzer.clean_text\<close>

fun clean_text :: "pyval \<Rightarrow> string" where
  "clean_text (PyStr text) =
     (let text = py_lower text;
          text = re_sub (\<lambda>_. match_url) None 0 text;
          text = re_sub (\<lambda>_. match_mention) None 0 text;
          text = re_sub (\<lambda>_. match_email) None 0 text;
          text = sub_ws False text;
          text = filter (\<lambda>c. \<not> (is_punct c \<and> c \<notin> {CHR ''.'', CHR ''!'', CHR ''?''})) text;
          text = py_join '' '' (py_split text)
      in py_strip text)"
| "clean_text _ = []"

section \<open>TopicExtractor.preprocess_text\<close>

text \<open>
  The tokenizer, the lemmatizer and the English stop word list come from NLTK; they are
  parameters of the model.
\<close>

record nltk =
  word_tokenize :: "string \<Rightarrow> string list"
  lemmatize :: "string \<Rightarrow> string"
  english_stopwords :: "string set"

definition custom_stopwords :: "string set" where
  "custom_stopwords =
     {''product'', ''service'', ''company'', ''customer'', ''experience'',
      ''good'', ''bad'', ''great'', ''terrible'', ''amazing'', ''awful'',
      ''like'', ''love'', ''hate'', ''really'', ''very'', ''quite'', ''pretty'',
      ''would'', ''could'', ''should'', ''will'', ''can'', ''get'', ''use'', ''used''}"

definition stop_words :: "nltk \<Rightarrow> string set" where
  "stop_words nl = english_stopwords nl \<union> custom_stopwords"

definition match_topic_noise :: "string \<Rightarrow> nat" where
  "match_topic_noise s =
     alt (match_lit_S ''http'' s) (alt (match_lit_S ''www.'' s) (alt (match_email s)
       (alt (match_sigil_w CHR ''@'' s) (match_sigil_w CHR ''#'' s))))"

fun preprocess_text :: "nltk \<Rightarrow> pyval \<Rightarrow> string" where
  "preprocess_text nl (PyStr text) =
     (let text = py_lower text;
          text = re_sub (\<lambda>_. match_topic_noise) None 0 text;
          text = re_sub match_number None 0 text;
          text = filter (\<lambda>c. \<not> (is_punct c \<and> c \<notin> {CHR ''-'', CHR ''_''})) text;
          text = py_join '' '' (py_split text);
          tokens = word_tokenize nl text;
          tokens = map (lemmatize nl)
                     (filter (\<lambda>token. token \<notin> stop_words nl \<and> 2 < length token) tokens)
      in py_join '' '' tokens)"
| "preprocess_text nl _ = []"

section \<open>SentimentAnalyzer\<close>

text \<open>
  The two polarity estimators are library calls (NLTK's VADER and TextBlob), parameters of
  the model: \<open>polarity_scores\<close> gives the \<open>compound\<close> entry of VADER's scores,
  \<open>textblob_sentiment\<close> the pair of polarity and subjectivity. Either may raise.
\<close>

record estimators =
  polarity_scores :: "string \<Rightarrow> error + real"
  textblob_sentiment :: "string \<Rightarrow> error + real \<times> real"

datatype sentiment_label = Positive | Negative | Neutral

record sentiment_result =
  score :: real
  label :: sentiment_label
  confidence :: real
  vader_compound :: real
  textblob_polarity :: real
  subjectivity :: real

definition analyze_sentiment_vader :: "estimators \<Rightarrow> string \<Rightarrow> error + real" where
  "analyze_sentiment_vader est text = (if text = [] then Inr 0 else polarity_scores est text)"

definition analyze_sentiment_textblob :: "estimators \<Rightarrow> string \<Rightarrow> error + real \<times> real" where
  "analyze_sentiment_textblob est text = (if text = [] then Inr (0, 0) else textblob_sentiment est text)"

definition analyze_sentiment ::
  "estimators \<Rightarrow> pyval \<Rightarrow> real \<Rightarrow> real \<Rightarrow> error + sentiment_result" where
  "analyze_sentiment est text vader_weight textblob_weight =
     (if \<not> truthy text
      then Inr \<lparr>score = 0, label = Neutral, confidence = 0, vader_compound = 0,
                textblob_polarity = 0, subjectivity = 0\<rparr>
      else
        let cleaned_text = clean_text text
        in case analyze_sentiment_vader est cleaned_text of
             Inl e \<Rightarrow> Inl e
           | Inr compound \<Rightarrow>
               (case analyze_sentiment_textblob est cleaned_text of
                  Inl e \<Rightarrow> Inl e
                | Inr (polarity, subj) \<Rightarrow>
                    let combined_score =
                          fl (fl (compound * vader_weight) + fl (polarity * textblob_weight));
                        lbl = (if fl (5 / 100) \<le> combined_score then Positive
                                 else if combined_score \<le> - fl (5 / 100) then Negative
                                 else Neutral);
                        score_magnitude = \<bar>combined_score\<bar>;
                        agreement_factor = fl (1 - fl (\<bar>fl (compound - polarity)\<bar> / 2));
                        conf = min (fl (score_magnitude * agreement_factor)) 1
                    in Inr \<lparr>score = py_round combined_score 4, label = lbl,
                             confidence = py_round conf 4,
                             vader_compound = py_round compound 4,
                             textblob_polarity = py_round polarity 4,
                             subjectivity = py_round subj 4\<rparr>))"

record batch_row = sentiment_result +
  text_id :: nat
  original_text :: pyval
  cleaned_text :: string

text \<open>
  The body of the inner loop of \<open>analyze_batch\<close>, for the text at index \<open>i + idx\<close>. The
  weights are the defaults of \<open>analyze_sentiment\<close>, the floats \<open>0.6\<close> and \<open>0.4\<close>.
\<close>

definition analyze_batch_item :: "estimators \<Rightarrow> nat \<Rightarrow> pyval \<Rightarrow> batch_row" where
  "analyze_batch_item est tid text =
     (case analyze_sentiment est text (fl (6 / 10)) (fl (4 / 10)) of
        Inr sentiment \<Rightarrow>
          \<lparr>score = score sentiment, label = label sentiment, confidence = confidence sentiment,
           vader_compound = vader_compound sentiment,
           textblob_polarity = textblob_polarity sentiment,
           subjectivity = subjectivity sentiment,
           text_id = tid, original_text = text,
           cleaned_text = (if truthy text then clean_text text else [])\<rparr>
      | Inl e \<Rightarrow>
          \<lparr>score = 0, label = Neutral, confidence = 0, vader_compound = 0,
           textblob_polarity = 0, subjectivity = 0,
           text_id = tid, original_text = text, cleaned_text = []\<rparr>)"

text \<open>The outer loop, \<open>for i in range(0, len(texts), batch_size)\<close>, from \<open>i\<close> on.\<close>

function analyze_batch_loop :: "estimators \<Rightarrow> pyval list \<Rightarrow> nat \<Rightarrow> nat \<Rightarrow> batch_row list" where
  "analyze_batch_loop est texts batch_size i =
     (if batch_size = 0 \<or> length texts \<le> i then []
      else map (\<lambda>(idx, text). analyze_batch_item est (i + idx) text)
             (enumerate 0 (take batch_size (drop i texts)))
           @ analyze_batch_loop est texts batch_size (i + batch_size))"
  by pat_completeness auto
termination
  by (relation "measure (\<lambda>(est, texts, batch_size, i). length texts - i)") auto

text \<open>\<open>range\<close> raises ValueError for a zero step and is empty for a negative one.\<close>

definition analyze_batch :: "estimators \<Rightarrow> pyval list \<Rightarrow> int \<Rightarrow> error + batch_row list" where
  "analyze_batch est texts batch_size =
     (if batch_size = 0 then Inl ValueError
      else if batch_size < 0 then Inr []
      else Inr (analyze_batch_loop est texts (nat batch_size) 0))"

declare analyze_batch_loop.simps [simp del]

text \<open>
  Estimators for the examples: VADER fails on \<open>boom\<close> and finds the compound score
  \<open>0.0833\<close> in \<open>fine\<close> and \<open>0.33\<close> in \<open>nice\<close>; TextBlob finds the polarity \<open>0.1\<close> and the
  subjectivity \<open>0.5\<close> in \<open>nice\<close> only.
\<close>

definition example_estimators :: estimators where
  "example_estimators =
     \<lparr>polarity_scores =
        (\<lambda>s. if s = ''boom'' then Inl LibraryError
             else if s = ''fine'' then Inr (fl (833 / 10000))
             else if s = ''nice'' then Inr (fl (33 / 100))
             else Inr 0),
      textblob_sentiment =
        (\<lambda>s. if s = ''nice'' then Inr (fl (1 / 10), 1 / 2) else Inr (0, 0))\<rparr>"


section \<open>Auxiliary notions for the normalizers\<close>

text \<open>
  A text has a URL-like token when, somewhere in it, \<open>http\<close> or \<open>www.\<close> is directly
  followed by a non-whitespace character (a match of \<open>http\S+|www\.\S+\<close>).
\<close>

fun has_url :: "string \<Rightarrow> bool" where
  "has_url [] = False"
| "has_url (c # cs) = (0 < match_url (c # cs) \<or> has_url cs)"

text \<open>
  NLTK for the examples: the tokenizer splits at whitespace and the lemmatizer changes
  nothing, which is what NLTK does on the words of the examples; \<open>the\<close> and \<open>was\<close> stand
  for the English stop word list.
\<close>

definition example_nltk :: nltk where
  "example_nltk =
     \<lparr>word_tokenize = py_split, lemmatize = (\<lambda>w. w), english_stopwords = {''the'', ''was''}\<rparr>"

section \<open>TopicExtractor: extraction\<close>

text \<open>
  A NumPy float is a real number or \<open>nan\<close>, which \<open>np.mean\<close> gives for an empty list.
\<close>

datatype np_float = Finite real | NaN

definition np_mean :: "real list \<Rightarrow> np_float" where
  "np_mean xs = (if xs = [] then NaN else Finite (sum_list xs / real (length xs)))"

text \<open>
  \<open>xs.sort(key=key, reverse=True)\<close>: the sort is stable also when reversed (elements with
  equal keys keep their order), that is, a stable ascending sort on the negated keys.
\<close>

definition py_sort_desc :: "('a \<Rightarrow> 'k :: {linorder, uminus}) \<Rightarrow> 'a list \<Rightarrow> 'a list" where
  "py_sort_desc key xs = sort_key (\<lambda>x. - key x) xs"

text \<open>\<open>xs[i]\<close> raises IndexError out of range.\<close>

definition get :: "'a list \<Rightarrow> nat \<Rightarrow> error + 'a" where
  "get xs i = (if i < length xs then Inr (xs ! i) else Inl IndexError)"

text \<open>A list comprehension whose elements may raise: the first exception ends it.\<close>

fun collect :: "(error + 'a) list \<Rightarrow> error + 'a list" where
  "collect [] = Inr []"
| "collect (Inl e # rs) = Inl e"
| "collect (Inr x # rs) = (case collect rs of Inl e \<Rightarrow> Inl e | Inr xs \<Rightarrow> Inr (x # xs))"

text \<open>
  A topic is a dictionary. Every topic has an id, a name and keywords; the K-means topics
  also have \<open>keyword_scores\<close>, \<open>document_count\<close>, \<open>coherence_score\<close> and \<open>cluster_center\<close>,
  the LDA topics \<open>keyword_probabilities\<close> and \<open>topic_distribution\<close>. A key that a topic
  does not have is \<open>None\<close>.
\<close>

record topic =
  topic_id :: nat
  topic_name :: string
  topic_keywords :: "string list"
  keyword_scores :: "real list option"
  document_count :: "nat option"
  coherence_score :: "np_float option"
  cluster_center :: "real list option"
  keyword_probabilities :: "real list option"
  topic_distribution :: "real list option"

text \<open>
  scikit-learn is a parameter of the model: the fitted TF-IDF and count vectorizers give
  the feature names and one row per document, K-means the label of every row and the
  cluster centers, LDA the components; \<open>argsort\<close> is NumPy's. Each fit may raise.
\<close>

record sklearn =
  tfidf_fit_transform :: "string list \<Rightarrow> error + string list \<times> real list list"
  kmeans_fit_predict :: "int \<Rightarrow> real list list \<Rightarrow> error + nat list \<times> real list list"
  count_fit_transform :: "string list \<Rightarrow> error + string list \<times> real list list"
  lda_fit :: "int \<Rightarrow> real list list \<Rightarrow> error + real list list"
  argsort :: "real list \<Rightarrow> nat list"

text \<open>The body of the loop over \<open>range(n_clusters)\<close>.\<close>

definition kmeans_topic ::
  "sklearn \<Rightarrow> string list \<Rightarrow> nat list \<Rightarrow> real list list \<Rightarrow> nat \<Rightarrow> error + topic" where
  "kmeans_topic sk feature_names cluster_labels cluster_centers cluster_id =
     (case get cluster_centers cluster_id of
        Inl e \<Rightarrow> Inl e
      | Inr center \<Rightarrow>
          let top_indices = rev (drop (length (argsort sk center) - 10) (argsort sk center))
          in case collect (map (get feature_names) top_indices) of
               Inl e \<Rightarrow> Inl e
             | Inr top_terms \<Rightarrow>
                 (case collect (map (get center) top_indices) of
                    Inl e \<Rightarrow> Inl e
                  | Inr top_scores \<Rightarrow>
                      let cluster_size = length (filter (\<lambda>l. l = cluster_id) cluster_labels);
                          name = py_join '' + '' (take 3 top_terms);
                          coherence = np_mean (take 5 top_scores)
                      in Inr \<lparr>topic_id = cluster_id, topic_name = name, topic_keywords = top_terms,
                               keyword_scores = Some top_scores,
                               document_count = Some cluster_size,
                               coherence_score = Some coherence,
                               cluster_center = Some center,
                               keyword_probabilities = None, topic_distribution = None\<rparr>))"

text \<open>The \<open>try\<close> block of \<open>extract_topics_kmeans\<close>; every K-means topic has a document count.\<close>

definition kmeans_try :: "sklearn \<Rightarrow> string list \<Rightarrow> int \<Rightarrow> error + topic list" where
  "kmeans_try sk cleaneds n_topics =
     (case tfidf_fit_transform sk cleaneds of
        Inl e \<Rightarrow> Inl e
      | Inr (feature_names, tfidf_matrix) \<Rightarrow>
          let n_clusters = min n_topics (int (length cleaneds))
          in case kmeans_fit_predict sk n_clusters tfidf_matrix of
               Inl e \<Rightarrow> Inl e
             | Inr (cluster_labels, cluster_centers) \<Rightarrow>
                 (case collect (map (kmeans_topic sk feature_names cluster_labels cluster_centers)
                                 [0 ..< nat n_clusters]) of
                    Inl e \<Rightarrow> Inl e
                  | Inr topics \<Rightarrow>
                      Inr (py_sort_desc
                             (\<lambda>x. case document_count x of Some n \<Rightarrow> int n | None \<Rightarrow> 0)
                             topics)))"

definition extract_topics_kmeans :: "sklearn \<Rightarrow> nltk \<Rightarrow> pyval list \<Rightarrow> int \<Rightarrow> topic list" where
  "extract_topics_kmeans sk nl texts n_topics =
     (if length texts < 2 then []
      else
        let cleaneds = filter (\<lambda>text. py_strip text \<noteq> []) (map (preprocess_text nl) texts)
        in if length cleaneds < 2 then []
           else case kmeans_try sk cleaneds n_topics of
                  Inl e \<Rightarrow> []
                | Inr topics \<Rightarrow> topics)"

text \<open>The body of the loop over \<open>enumerate(lda.components_)\<close>.\<close>

definition lda_topic :: "sklearn \<Rightarrow> string list \<Rightarrow> nat \<Rightarrow> real list \<Rightarrow> error + topic" where
  "lda_topic sk feature_names topic_idx tpc =
     (let top_indices = rev (drop (length (argsort sk tpc) - 10) (argsort sk tpc))
      in case collect (map (get feature_names) top_indices) of
           Inl e \<Rightarrow> Inl e
         | Inr top_words \<Rightarrow>
             (case collect (map (get tpc) top_indices) of
                Inl e \<Rightarrow> Inl e
              | Inr top_probabilities \<Rightarrow>
                  Inr \<lparr>topic_id = topic_idx, topic_name = py_join '' + '' (take 3 top_words),
                       topic_keywords = top_words,
                       keyword_scores = None, document_count = None, coherence_score = None,
                       cluster_center = None,
                       keyword_probabilities = Some top_probabilities,
                       topic_distribution = Some tpc\<rparr>))"

definition lda_try :: "sklearn \<Rightarrow> string list \<Rightarrow> int \<Rightarrow> error + topic list" where
  "lda_try sk cleaneds n_topics =
     (case count_fit_transform sk cleaneds of
        Inl e \<Rightarrow> Inl e
      | Inr (feature_names, doc_term_matrix) \<Rightarrow>
          (case lda_fit sk n_topics doc_term_matrix of
             Inl e \<Rightarrow> Inl e
           | Inr components \<Rightarrow>
               collect (map (\<lambda>(topic_idx, tpc). lda_topic sk feature_names topic_idx tpc)
                          (enumerate 0 components))))"

definition extract_topics_lda :: "sklearn \<Rightarrow> nltk \<Rightarrow> pyval list \<Rightarrow> int \<Rightarrow> topic list" where
  "extract_topics_lda sk nl texts n_topics =
     (if length texts < 2 then []
      else
        let cleaneds = filter (\<lambda>text. py_strip text \<noteq> []) (map (preprocess_text nl) texts)
        in if length cleaneds < 2 then []
           else case lda_try sk cleaneds n_topics of
                  Inl e \<Rightarrow> []
                | Inr topics \<Rightarrow> topics)"

section \<open>TopicExtractor: assignment\<close>

text \<open>
  The relevance of a text to a topic: the share of the topic's keywords among the words
  of the text, plus a bonus for the number of distinct words. It is kept as the exact
  sum of the two fractions.
\<close>

definition calculate_topic_relevance :: "string \<Rightarrow> string list \<Rightarrow> real" where
  "calculate_topic_relevance text keywords =
     (if text = [] \<or> keywords = [] then 0
      else
        let text_words = remdups (py_split (py_lower text));
            keyword_matches = length (filter (\<lambda>keyword. py_lower keyword \<in> set text_words) keywords);
            relevance = real keyword_matches / real (length keywords);
            length_bonus = min (real (length text_words) / 50) (2 / 10)
        in min (relevance + length_bonus) 1)"

definition get_matching_keywords :: "string \<Rightarrow> string list \<Rightarrow> string list" where
  "get_matching_keywords text keywords =
     (let text_words = remdups (py_split (py_lower text))
      in filter (\<lambda>keyword. py_lower keyword \<in> set text_words) keywords)"

record assignment =
  document_id :: nat
  assigned_topic_id :: nat
  assigned_topic_name :: string
  relevance_score :: real
  keywords_found :: "string list"

text \<open>The dictionary appended for a document and a topic.\<close>

definition topic_assignment :: "nat \<Rightarrow> string \<Rightarrow> topic \<Rightarrow> assignment" where
  "topic_assignment doc_idx cleaned tpc =
     \<lparr>document_id = doc_idx, assigned_topic_id = topic_id tpc,
      assigned_topic_name = topic_name tpc,
      relevance_score = calculate_topic_relevance cleaned (topic_keywords tpc),
      keywords_found = get_matching_keywords cleaned (topic_keywords tpc)\<rparr>"

text \<open>The loop over the topics for one document, the sort and the cut to three.\<close>

definition doc_topic_scores :: "nat \<Rightarrow> string \<Rightarrow> topic list \<Rightarrow> assignment list" where
  "doc_topic_scores doc_idx cleaned topics =
     take 3 (py_sort_desc relevance_score
       (map (topic_assignment doc_idx cleaned)
          (filter (\<lambda>tpc. 1 / 10 < calculate_topic_relevance cleaned (topic_keywords tpc)) topics)))"

definition assign_topics_to_documents :: "nltk \<Rightarrow> pyval list \<Rightarrow> topic list \<Rightarrow> assignment list" where
  "assign_topics_to_documents nl texts topics =
     (if texts = [] \<or> topics = [] then []
      else concat (map (\<lambda>(doc_idx, text).
             if \<not> truthy text then []
             else let cleaned = preprocess_text nl text
                  in if cleaned = [] then []
                     else doc_topic_scores doc_idx cleaned topics)
           (enumerate 0 texts)))"

section \<open>TopicExtractor: summary\<close>








section \<open>A small corpus for the examples\<close>

text \<open>
  scikit-learn for the examples: two features, \<open>delivery\<close> and \<open>support\<close>, counted per
  document; K-means puts the documents that only mention \<open>support\<close> into cluster 1 and the
  others into cluster 0; \<open>argsort\<close> sorts the indices by value, equal values in index order.
\<close>

definition example_rows :: "string list \<Rightarrow> real list list" where
  "example_rows docs =
     map (\<lambda>d. [if ''delivery'' \<in> set (py_split d) then 1 else 0,
               if ''support'' \<in> set (py_split d) then 1 else 0]) docs"

definition example_sklearn :: sklearn where
  "example_sklearn =
     \<lparr>tfidf_fit_transform = (\<lambda>docs. Inr ([''delivery'', ''support''], example_rows docs)),
      kmeans_fit_predict =
        (\<lambda>n rows. if n < 1 then Inl ValueError
                   else Inr (map (\<lambda>row. if 2 \<le> n \<and> row = [0, 1] then 1 else 0) rows,
                             map (\<lambda>c. if c = 0 then [1, 0] else [0, 1]) [0 ..< nat n])),
      count_fit_transform = (\<lambda>docs. Inr ([''delivery'', ''support''], example_rows docs)),
      lda_fit =
        (\<lambda>n rows. if n < 1 then Inl ValueError
                   else Inr (map (\<lambda>c. if c = 0 then [2, 1] else [1, 2]) [0 ..< nat n])),
      argsort = (\<lambda>xs. map snd (sort_key fst (zip xs [0 ..< length xs])))\<rparr>"

definition example_texts :: "pyval list" where
  "example_texts = [PyStr ''Slow delivery!'', PyStr ''Support was rude'', PyNone, PyStr ''support late'']"

text \<open>The topics that K-means extraction returns for this corpus and two clusters.\<close>

definition example_topics :: "topic list" where
  "example_topics =
     [\<lparr>topic_id = 1, topic_name = ''support + delivery'',
       topic_keywords = [''support'', ''delivery''],
       keyword_scores = Some [1, 0], document_count = Some 2,
       coherence_score = Some (Finite (1 / 2)), cluster_center = Some [0, 1],
       keyword_probabilities = None, topic_distribution = None\<rparr>,
      \<lparr>topic_id = 0, topic_name = ''delivery + support'',
       topic_keywords = [''delivery'', ''support''],
       keyword_scores = Some [1, 0], document_count = Some 1,
       coherence_score = Some (Finite (1 / 2)), cluster_center = Some [1, 0],
       keyword_probabilities = None, topic_distribution = None\<rparr>]"


section \<open>Rounding\<close>

lemma round_half_even_ge: "of_int n \<le> y \<Longrightarrow> n \<le> round_half_even y"
proof -
  assume "of_int n \<le> y"
  then have "n \<le> \<lfloor>y\<rfloor>" by (simp add: le_floor_iff)
  then show ?thesis by (auto simp: round_half_even_def Let_def)
qed

lemma round_half_even_le: "y \<le> of_int n \<Longrightarrow> round_half_even y \<le> n"
proof (cases "y = of_int n")
  case True
  then show ?thesis by (simp add: round_half_even_def Let_def)
next
  case False
  assume "y \<le> of_int n"
  with False have "y < of_int n" by simp
  then have "\<lfloor>y\<rfloor> < n" by (simp add: floor_less_iff)
  then show ?thesis by (auto simp: round_half_even_def Let_def)
qed

lemma round_half_even_mono: "x \<le> y \<Longrightarrow> round_half_even x \<le> round_half_even y"
proof (cases "\<lfloor>x\<rfloor> = \<lfloor>y\<rfloor>")
  case True
  assume "x \<le> y"
  with True show ?thesis by (auto simp: round_half_even_def Let_def)
next
  case False
  assume xy: "x \<le> y"
  then have "\<lfloor>x\<rfloor> \<le> \<lfloor>y\<rfloor>" by (rule floor_mono)
  with False have "\<lfloor>x\<rfloor> + 1 \<le> \<lfloor>y\<rfloor>" by simp
  moreover have "round_half_even x \<le> \<lfloor>x\<rfloor> + 1" by (auto simp: round_half_even_def Let_def)
  moreover have "\<lfloor>y\<rfloor> \<le> round_half_even y" by (auto simp: round_half_even_def Let_def)
  ultimately show ?thesis by linarith
qed

text \<open>The binade is the integer part of the binary logarithm.\<close>

lemma binade_up_spec: "1 \<le> x \<Longrightarrow> binade_up x e = e + \<lfloor>log 2 x\<rfloor>"
proof (induction x e rule: binade_up.induct)
  case (1 x e)
  show ?case
  proof (cases "2 \<le> x")
    case True
    then have "binade_up x e = binade_up (x / 2) (e + 1)" by (subst binade_up.simps) simp
    also have "\<dots> = e + 1 + \<lfloor>log 2 (x / 2)\<rfloor>" using 1 True by simp
    also have "log 2 (x / 2) = log 2 x - 1" using True by (simp add: log_divide)
    finally show ?thesis by simp
  next
    case False
    with 1(2) have "\<lfloor>log 2 x\<rfloor> = 0" by (simp add: floor_log_eq_powr_iff)
    with False show ?thesis by (subst binade_up.simps) simp
  qed
qed

lemma binade_down_spec:
  "0 < x \<Longrightarrow> x < 2 \<Longrightarrow> - 1022 \<le> e \<Longrightarrow>
   binade_down x e = (if 1 \<le> x then e else max (e + \<lfloor>log 2 x\<rfloor>) (- 1022))"
proof (induction x e rule: binade_down.induct)
  case (1 x e)
  show ?case
  proof (cases "x < 1 \<and> - 1022 < e")
    case True
    then have "binade_down x e = binade_down (2 * x) (e - 1)" by (subst binade_down.simps) simp
    also have "\<dots> = (if 1 \<le> 2 * x then e - 1 else max (e - 1 + \<lfloor>log 2 (2 * x)\<rfloor>) (- 1022))"
      using 1 True by simp
    finally have b: "binade_down x e
        = (if 1 \<le> 2 * x then e - 1 else max (e - 1 + \<lfloor>log 2 (2 * x)\<rfloor>) (- 1022))" .
    have l: "log 2 (2 * x) = 1 + log 2 x" using 1(2) by (simp add: log_mult)
    show ?thesis
    proof (cases "1 \<le> 2 * x")
      case h: True
      with True 1(2) have "\<lfloor>log 2 x\<rfloor> = - 1"
        by (simp add: floor_log_eq_powr_iff powr_minus field_simps)
      with b h True show ?thesis by simp
    next
      case False
      with b l True show ?thesis by simp
    qed
  next
    case False
    show ?thesis
    proof (cases "1 \<le> x")
      case True
      then show ?thesis by (subst binade_down.simps) simp
    next
      case x: False
      with False 1(4) have e: "e = - 1022" by simp
      from x 1(2) have "log 2 x < 0" by simp
      then have "\<lfloor>log 2 x\<rfloor> < 0" by (simp add: floor_less_iff)
      with e x show ?thesis by (subst binade_down.simps) simp
    qed
  qed
qed

lemma binade_spec: "x \<noteq> 0 \<Longrightarrow> binade x = max \<lfloor>log 2 \<bar>x\<bar>\<rfloor> (- 1022)"
proof (cases "1 \<le> \<bar>x\<bar>")
  case True
  then have "0 \<le> log 2 \<bar>x\<bar>" by simp
  then have "0 \<le> \<lfloor>log 2 \<bar>x\<bar>\<rfloor>" by simp
  then have "max \<lfloor>log 2 \<bar>x\<bar>\<rfloor> (- 1022) = \<lfloor>log 2 \<bar>x\<bar>\<rfloor>" by linarith
  moreover have "binade x = \<lfloor>log 2 \<bar>x\<bar>\<rfloor>"
    using True binade_up_spec [of "\<bar>x\<bar>" 0] by (simp add: binade_def)
  ultimately show ?thesis by simp
next
  case False
  assume "x \<noteq> 0"
  then have "0 < \<bar>x\<bar>" by simp
  moreover from False have "\<bar>x\<bar> < 2" by linarith
  ultimately have "binade_down \<bar>x\<bar> 0 = (if 1 \<le> \<bar>x\<bar> then 0 else max (0 + \<lfloor>log 2 \<bar>x\<bar>\<rfloor>) (- 1022))"
    by (rule binade_down_spec) simp
  with False show ?thesis by (simp add: binade_def)
qed

lemma ulp_powr: "ulp x = 2 powr of_int (binade x - 52)"
proof -
  have "(2::real) powr of_int (binade x - 52)
        = (if 0 \<le> binade x - 52 then 2 ^ nat (binade x - 52)
           else inverse (2 ^ nat (- (binade x - 52))))"
    by (rule powr_real_of_int) simp
  then show ?thesis
    unfolding ulp_def Let_def by (simp only: inverse_eq_divide)
qed

lemma ulp_pos: "0 < ulp x"
  by (simp add: ulp_powr)

lemma fl_le_grid:
  assumes "b = of_int n * ulp x" and "x \<le> b"
  shows "fl x \<le> b"
proof (cases "x = 0")
  case True
  with assms show ?thesis by (simp add: fl_def)
next
  case False
  from assms ulp_pos [of x] have "x / ulp x \<le> of_int n" by (simp add: divide_le_eq)
  then have "round_half_even (x / ulp x) \<le> n" by (rule round_half_even_le)
  then have "of_int (round_half_even (x / ulp x)) * ulp x \<le> of_int n * ulp x"
    using ulp_pos [of x] by (simp add: mult_right_mono)
  with False assms(1) show ?thesis by (simp add: fl_def)
qed

lemma fl_ge_grid:
  assumes "b = of_int n * ulp x" and "b \<le> x"
  shows "b \<le> fl x"
proof (cases "x = 0")
  case True
  with assms show ?thesis by (simp add: fl_def)
next
  case False
  from assms ulp_pos [of x] have "of_int n \<le> x / ulp x" by (simp add: le_divide_eq)
  then have "n \<le> round_half_even (x / ulp x)" by (rule round_half_even_ge)
  then have "of_int n * ulp x \<le> of_int (round_half_even (x / ulp x)) * ulp x"
    using ulp_pos [of x] by (simp add: mult_right_mono)
  with False assms(1) show ?thesis by (simp add: fl_def)
qed

lemma fl_nonneg: "0 \<le> x \<Longrightarrow> 0 \<le> fl x"
  using fl_ge_grid [of 0 0 x] by simp

lemma fl_nonpos: "x \<le> 0 \<Longrightarrow> fl x \<le> 0"
  using fl_le_grid [of 0 0 x] by simp

lemma binade_upper:
  assumes "x \<noteq> 0"
  shows "\<bar>x\<bar> < 2 powr of_int (binade x + 1)"
proof -
  have "log 2 \<bar>x\<bar> < of_int \<lfloor>log 2 \<bar>x\<bar>\<rfloor> + 1" by linarith
  also have "\<dots> \<le> of_int (binade x + 1)" by (simp add: binade_spec [OF assms])
  finally have "log 2 \<bar>x\<bar> < of_int (binade x + 1)" .
  with assms show ?thesis by (simp add: log_less_iff)
qed

lemma binade_lower:
  assumes "x \<noteq> 0" and "- 1022 < binade x"
  shows "2 powr of_int (binade x) \<le> \<bar>x\<bar>"
proof -
  from assms(2) have "binade x = \<lfloor>log 2 \<bar>x\<bar>\<rfloor>"
    by (simp add: binade_spec [OF assms(1)] max_def split: if_splits)
  then have "of_int (binade x) \<le> log 2 \<bar>x\<bar>" by simp
  with assms(1) show ?thesis by (simp add: le_log_iff)
qed

lemma pow2_grid:
  assumes "k \<le> j"
  shows "\<exists>n. (2::real) powr of_int j = of_int n * 2 powr of_int k"
proof -
  have "(2::real) powr of_int j = 2 powr (of_int (j - k) + of_int k)" by simp
  also have "\<dots> = 2 powr of_int (j - k) * 2 powr of_int k" by (rule powr_add)
  also have "(2::real) powr of_int (j - k) = of_int (2 ^ nat (j - k))"
    using assms powr_real_of_int [of 2 "j - k"] by simp
  finally show ?thesis by blast
qed

lemma fl_mono:
  assumes "x \<le> y"
  shows "fl x \<le> fl y"
proof -
  consider "x = 0" | "y = 0" | "x \<noteq> 0" "y \<noteq> 0" "binade x = binade y"
    | "x \<noteq> 0" "y \<noteq> 0" "binade x < binade y" | "x \<noteq> 0" "y \<noteq> 0" "binade y < binade x"
    by linarith
  then show ?thesis
  proof cases
    case 1
    with assms fl_nonneg [of y] show ?thesis by (simp add: fl_def)
  next
    case 2
    with assms fl_nonpos [of x] show ?thesis by (simp add: fl_def)
  next
    case 3
    then have u: "ulp x = ulp y" by (simp add: ulp_def)
    from assms ulp_pos [of y] have "x / ulp y \<le> y / ulp y" by (simp add: divide_right_mono)
    then have "round_half_even (x / ulp y) \<le> round_half_even (y / ulp y)"
      by (rule round_half_even_mono)
    then have "of_int (round_half_even (x / ulp y)) * ulp y \<le> of_int (round_half_even (y / ulp y)) * ulp y"
      using ulp_pos [of y] by (simp add: mult_right_mono)
    with 3 u show ?thesis by (simp add: fl_def)
  next
    case 4
    define P :: real where "P = 2 powr of_int (binade y)"
    have "- 1022 \<le> binade x" using 4(1) by (simp add: binade_spec)
    with 4 have "- 1022 < binade y" by simp
    with 4 have Py: "P \<le> \<bar>y\<bar>" unfolding P_def by (simp add: binade_lower)
    have "\<bar>x\<bar> < 2 powr of_int (binade x + 1)" using 4(1) by (rule binade_upper)
    also have "\<dots> \<le> P" unfolding P_def using 4 by (simp del: of_int_add)
    finally have xP: "\<bar>x\<bar> < P" .
    with Py assms have "P \<le> y" "x \<le> P" by linarith+
    obtain n where n: "P = of_int n * ulp x"
      unfolding P_def ulp_powr using pow2_grid [of "binade x - 52" "binade y"] 4 by auto
    obtain m where m: "P = of_int m * ulp y"
      unfolding P_def ulp_powr using pow2_grid [of "binade y - 52" "binade y"] by auto
    have "fl x \<le> P" using n \<open>x \<le> P\<close> by (rule fl_le_grid)
    moreover have "P \<le> fl y" using m \<open>P \<le> y\<close> by (rule fl_ge_grid)
    ultimately show ?thesis by linarith
  next
    case 5
    define P :: real where "P = 2 powr of_int (binade x)"
    have "- 1022 \<le> binade y" using 5(2) by (simp add: binade_spec)
    with 5 have "- 1022 < binade x" by simp
    with 5 have Px: "P \<le> \<bar>x\<bar>" unfolding P_def by (simp add: binade_lower)
    have "\<bar>y\<bar> < 2 powr of_int (binade y + 1)" using 5(2) by (rule binade_upper)
    also have "\<dots> \<le> P" unfolding P_def using 5 by (simp del: of_int_add)
    finally have yP: "\<bar>y\<bar> < P" .
    with Px assms have "x \<le> - P" "- P \<le> y" by linarith+
    obtain n where "P = of_int n * ulp x"
      unfolding P_def ulp_powr using pow2_grid [of "binade x - 52" "binade x"] by auto
    then have n: "- P = of_int (- n) * ulp x" by simp
    obtain m where "P = of_int m * ulp y"
      unfolding P_def ulp_powr using pow2_grid [of "binade y - 52" "binade x"] 5 by auto
    then have m: "- P = of_int (- m) * ulp y" by simp
    have "fl x \<le> - P" using n \<open>x \<le> - P\<close> by (rule fl_le_grid)
    moreover have "- P \<le> fl y" using m \<open>- P \<le> y\<close> by (rule fl_ge_grid)
    ultimately show ?thesis by linarith
  qed
qed

lemma fl_eq:
  assumes "2 ^ 52 \<le> \<bar>x\<bar> * 2 ^ k" and "\<bar>x\<bar> * 2 ^ k < 2 ^ 53" and "k \<le> 1074"
    and "round_half_even (x * 2 ^ k) = m"
  shows "fl x = of_int m / 2 ^ k"
proof -
  from assms(1) have x: "x \<noteq> 0" by auto
  have p: "(2::real) powr of_int (j - int k) = 2 ^ j / 2 ^ k" for j :: nat
  proof -
    have "(2::real) powr of_int (int j - int k) = 2 powr (real j - real k)" by simp
    also have "\<dots> = 2 powr real j / 2 powr real k" by (rule powr_diff)
    finally show ?thesis by (simp add: powr_realpow)
  qed
  have "(2::real) powr of_int (52 - int k) \<le> \<bar>x\<bar>"
    using assms(1) p [of 52] by (simp add: divide_le_eq)
  moreover have "\<bar>x\<bar> < (2::real) powr of_int (52 - int k + 1)"
    using assms(2) p [of 53] by (simp add: less_divide_eq)
  ultimately have "\<lfloor>log 2 \<bar>x\<bar>\<rfloor> = 52 - int k"
    using x by (simp add: floor_log_eq_powr_iff)
  with assms(3) have "binade x = 52 - int k" by (simp add: binade_spec [OF x])
  then have "ulp x = 1 / 2 ^ k" using p [of 0] by (simp add: ulp_powr)
  with x assms(4) show ?thesis by (simp add: fl_def)
qed

lemma fl_eqI:
  assumes "2 ^ 52 \<le> \<bar>x\<bar> * 2 ^ k" and "\<bar>x\<bar> * 2 ^ k < 2 ^ 53" and "k \<le> 1074"
    and "round_half_even (x * 2 ^ k) = m" and "of_int m / 2 ^ k = r"
  shows "fl x = r"
  using fl_eq [OF assms(1-4)] assms(5) by simp

lemma round_half_even_below: "y < of_int n + 1 / 2 \<Longrightarrow> round_half_even y \<le> n"
proof -
  assume a: "y < of_int n + 1 / 2"
  then have "y < of_int (n + 1)" by simp
  then have "\<lfloor>y\<rfloor> < n + 1" by (simp only: floor_less_iff)
  with a show ?thesis by (auto simp: round_half_even_def Let_def)
qed

lemma round_half_even_above: "of_int n - 1 / 2 < y \<Longrightarrow> n \<le> round_half_even y"
proof -
  assume a: "of_int n - 1 / 2 < y"
  then have "of_int (n - 1) \<le> y" by simp
  then have "n - 1 \<le> \<lfloor>y\<rfloor>" by (simp only: le_floor_iff)
  with a show ?thesis by (auto simp: round_half_even_def Let_def)
qed

lemma round_half_even_neg: "round_half_even (- y) = - round_half_even y"
proof (cases "y = of_int \<lfloor>y\<rfloor>")
  case True
  then obtain n :: int where "y = of_int n" ..
  then show ?thesis by (simp add: round_half_even_def flip: of_int_minus)
next
  case False
  then have lt: "of_int \<lfloor>y\<rfloor> < y" using of_int_floor_le [of y] by linarith
  have "\<lfloor>- y\<rfloor> = - \<lfloor>y\<rfloor> - 1"
  proof (rule floor_unique)
    show "of_int (- \<lfloor>y\<rfloor> - 1) \<le> - y" by simp linarith
    show "- y < of_int (- \<lfloor>y\<rfloor> - 1) + 1" using lt by simp
  qed
  then show ?thesis
    by (auto simp: round_half_even_def Let_def)
qed

lemma fl_neg: "fl (- x) = - fl x"
  by (simp add: fl_def ulp_def binade_def round_half_even_neg)

lemma fl_0: "fl 0 = 0"
  by (simp add: fl_def)

text \<open>The floats of the program text and of the examples.\<close>

lemma fl_value_0: "fl (12980742146337070512478121581609 / 324518553658426726783156020576256) = 1441151880758559 / 36028797018963968"
  by (rule fl_eqI [where k = 57 and m = "5764607523034236"]) (simp_all add: round_half_even_def)

lemma fl_value_1: "fl (6002397583359397 / 144115188075855872) = 6002397583359397 / 144115188075855872"
  by (rule fl_eqI [where k = 57 and m = "6002397583359397"]) (simp_all add: round_half_even_def)

lemma fl_value_2: "fl (7771948873904845572328525936785 / 162259276829213363391578010288128) = 3451438634407487 / 72057594037927936"
  by (rule fl_eqI [where k = 57 and m = "6902877268814974"]) (simp_all add: round_half_even_def)

lemma fl_value_3: "fl (479 / 10000) = 862889688604187 / 18014398509481984"
  by (rule fl_eqI [where k = 57 and m = "6903117508833496"]) (simp_all add: round_half_even_def)

lemma fl_value_4: "fl (1800719275007819 / 36028797018963968) = 1800719275007819 / 36028797018963968"
  by (rule fl_eqI [where k = 57 and m = "7202877100031276"]) (simp_all add: round_half_even_def)

lemma fl_value_5: "fl (32438874623696334036947573909215 / 649037107316853453566312041152512) = 1800719275007819 / 36028797018963968"
  by (rule fl_eqI [where k = 57 and m = "7202877100031276"]) (simp_all add: round_half_even_def)

lemma fl_value_6: "fl (1 / 20) = 3602879701896397 / 72057594037927936"
  by (rule fl_eqI [where k = 57 and m = "7205759403792794"]) (simp_all add: round_half_even_def)

lemma fl_value_7: "fl (3602879701896397 / 72057594037927936) = 3602879701896397 / 72057594037927936"
  by (rule fl_eqI [where k = 57 and m = "7205759403792794"]) (simp_all add: round_half_even_def)

lemma fl_value_8: "fl (6002397583359397 / 72057594037927936) = 6002397583359397 / 72057594037927936"
  by (rule fl_eqI [where k = 56 and m = "6002397583359397"]) (simp_all add: round_half_even_def)

lemma fl_value_9: "fl (833 / 10000) = 6002397583359397 / 72057594037927936"
  by (rule fl_eqI [where k = 56 and m = "6002397583359397"]) (simp_all add: round_half_even_def)

lemma fl_value_10: "fl (1 / 10) = 3602879701896397 / 36028797018963968"
  by (rule fl_eqI [where k = 56 and m = "7205759403792794"]) (simp_all add: round_half_even_def)

lemma fl_value_11: "fl (8286623314361713 / 72057594037927936) = 8286623314361713 / 72057594037927936"
  by (rule fl_eqI [where k = 56 and m = "8286623314361713"]) (simp_all add: round_half_even_def)

lemma fl_value_12: "fl (32127336812184246275791619207725 / 162259276829213363391578010288128) = 3566850904877433 / 18014398509481984"
  by (rule fl_eqI [where k = 55 and m = "7133701809754866"]) (simp_all add: round_half_even_def)

lemma fl_value_13: "fl (1053 / 5000) = 1896916163048453 / 9007199254740992"
  by (rule fl_eqI [where k = 55 and m = "7587664652193812"]) (simp_all add: round_half_even_def)

lemma fl_value_14: "fl (34176671478537213529344596784825 / 162259276829213363391578010288128) = 7588745516104381 / 36028797018963968"
  by (rule fl_eqI [where k = 55 and m = "7588745516104381"]) (simp_all add: round_half_even_def)

lemma fl_value_15: "fl (16212958658533785 / 72057594037927936) = 2026619832316723 / 9007199254740992"
  by (rule fl_eqI [where k = 55 and m = "8106479329266892"]) (simp_all add: round_half_even_def)

lemma fl_value_16: "fl (9 / 40) = 8106479329266893 / 36028797018963968"
  by (rule fl_eqI [where k = 55 and m = "8106479329266893"]) (simp_all add: round_half_even_def)

lemma fl_value_17: "fl (8286623314361713 / 36028797018963968) = 8286623314361713 / 36028797018963968"
  by (rule fl_eqI [where k = 55 and m = "8286623314361713"]) (simp_all add: round_half_even_def)

lemma fl_value_18: "fl (119 / 500) = 535928355657089 / 2251799813685248"
  by (rule fl_eqI [where k = 55 and m = "8574853690513424"]) (simp_all add: round_half_even_def)

lemma fl_value_19: "fl (8574853690513425 / 36028797018963968) = 8574853690513425 / 36028797018963968"
  by (rule fl_eqI [where k = 55 and m = "8574853690513425"]) (simp_all add: round_half_even_def)

lemma fl_value_20: "fl (1 / 4) = 1 / 4"
  by (rule fl_eqI [where k = 54 and m = "4503599627370496"]) (simp_all add: round_half_even_def)

lemma fl_value_21: "fl (5404319552844595 / 18014398509481984) = 5404319552844595 / 18014398509481984"
  by (rule fl_eqI [where k = 54 and m = "5404319552844595"]) (simp_all add: round_half_even_def)

lemma fl_value_22: "fl (3 / 10) = 5404319552844595 / 18014398509481984"
  by (rule fl_eqI [where k = 54 and m = "5404319552844595"]) (simp_all add: round_half_even_def)

lemma fl_value_23: "fl (33 / 100) = 5944751508129055 / 18014398509481984"
  by (rule fl_eqI [where k = 54 and m = "5944751508129055"]) (simp_all add: round_half_even_def)

lemma fl_value_24: "fl (1 / 3) = 6004799503160661 / 18014398509481984"
  by (rule fl_eqI [where k = 54 and m = "6004799503160661"]) (simp_all add: round_half_even_def)

lemma fl_value_25: "fl (2 / 5) = 3602879701896397 / 9007199254740992"
  by (rule fl_eqI [where k = 54 and m = "7205759403792794"]) (simp_all add: round_half_even_def)

lemma fl_value_26: "fl (3602879701896397 / 9007199254740992) = 3602879701896397 / 9007199254740992"
  by (rule fl_eqI [where k = 54 and m = "7205759403792794"]) (simp_all add: round_half_even_def)

lemma fl_value_27: "fl (1 / 2) = 1 / 2"
  by (rule fl_eqI [where k = 53 and m = "4503599627370496"]) (simp_all add: round_half_even_def)

lemma fl_value_28: "fl (5404319552844595 / 9007199254740992) = 5404319552844595 / 9007199254740992"
  by (rule fl_eqI [where k = 53 and m = "5404319552844595"]) (simp_all add: round_half_even_def)

lemma fl_value_29: "fl (3 / 5) = 5404319552844595 / 9007199254740992"
  by (rule fl_eqI [where k = 53 and m = "5404319552844595"]) (simp_all add: round_half_even_def)

lemma fl_value_30: "fl (3 / 4) = 3 / 4"
  by (rule fl_eqI [where k = 53 and m = "6755399441055744"]) (simp_all add: round_half_even_def)

lemma fl_value_31: "fl (63770970723566223 / 72057594037927936) = 3985685670222889 / 4503599627370496"
  by (rule fl_eqI [where k = 53 and m = "7971371340445778"]) (simp_all add: round_half_even_def)

lemma fl_value_32: "fl (138112790492496475 / 144115188075855872) = 4316024702890515 / 4503599627370496"
  by (rule fl_eqI [where k = 53 and m = "8632049405781030"]) (simp_all add: round_half_even_def)

lemma fl_value_33: "fl (1) = 1"
  by (rule fl_eqI [where k = 52 and m = "4503599627370496"]) (simp_all add: round_half_even_def)

lemma fl_value_34: "fl (133 / 100) = 748723438050345 / 562949953421312"
  by (rule fl_eqI [where k = 52 and m = "5989787504402760"]) (simp_all add: round_half_even_def)

lemma fl_value_35: "fl (4 / 3) = 6004799503160661 / 4503599627370496"
  by (rule fl_eqI [where k = 52 and m = "6004799503160661"]) (simp_all add: round_half_even_def)

lemma fl_value_36: "fl (2) = 2"
  by (rule fl_eqI [where k = 51 and m = "4503599627370496"]) (simp_all add: round_half_even_def)

lemma fl_value_37: "fl (333 / 10) = 2343279181116211 / 70368744177664"
  by (rule fl_eqI [where k = 47 and m = "4686558362232422"]) (simp_all add: round_half_even_def)

lemma fl_value_38: "fl (150119987579016525 / 4503599627370496) = 2345624805922133 / 70368744177664"
  by (rule fl_eqI [where k = 47 and m = "4691249611844266"]) (simp_all add: round_half_even_def)

lemma fl_value_39: "fl (100) = 100"
  by (rule fl_eqI [where k = 46 and m = "7036874417766400"]) (simp_all add: round_half_even_def)

lemma fl_value_c: "fl (21063 / 100000) = 7588745516104381 / 36028797018963968"
  by (rule fl_eqI [where k = 55 and m = "7588745516104381"]) (simp_all add: round_half_even_def)

lemmas fl_values =
  fl_value_c
  fl_value_0 fl_value_1 fl_value_2 fl_value_3 fl_value_4 fl_value_5
  fl_value_6 fl_value_7 fl_value_8 fl_value_9 fl_value_10 fl_value_11
  fl_value_12 fl_value_13 fl_value_14 fl_value_15 fl_value_16 fl_value_17
  fl_value_18 fl_value_19 fl_value_20 fl_value_21 fl_value_22 fl_value_23
  fl_value_24 fl_value_25 fl_value_26 fl_value_27 fl_value_28 fl_value_29
  fl_value_30 fl_value_31 fl_value_32 fl_value_33 fl_value_34 fl_value_35
  fl_value_36 fl_value_37 fl_value_38 fl_value_39

lemma fl_mono_const:
  "x \<le> 1 \<Longrightarrow> fl x \<le> 1"
  "- 1 \<le> x \<Longrightarrow> - 1 \<le> fl x"
  "x \<le> 2 \<Longrightarrow> fl x \<le> 2"
  "- 2 \<le> x \<Longrightarrow> - 2 \<le> fl x"
  using fl_mono [of x 1] fl_mono [of "- 1" x] fl_mono [of x 2] fl_mono [of "- 2" x]
  by (simp_all add: fl_neg fl_values)

section \<open>Rounding to decimal places\<close>


lemma py_round_le:
  assumes "round_half_even (x * 10 ^ k) \<le> n"
  shows "py_round x k \<le> fl (of_int n / 10 ^ k)"
proof -
  from assms have "(of_int (round_half_even (x * 10 ^ k)) :: real) \<le> of_int n" by simp
  then have "of_int (round_half_even (x * 10 ^ k)) / 10 ^ k \<le> (of_int n :: real) / 10 ^ k"
    by (simp add: divide_right_mono)
  then show ?thesis unfolding py_round_def by (rule fl_mono)
qed

lemma py_round_ge:
  assumes "n \<le> round_half_even (x * 10 ^ k)"
  shows "fl (of_int n / 10 ^ k) \<le> py_round x k"
proof -
  from assms have "(of_int n :: real) \<le> of_int (round_half_even (x * 10 ^ k))" by simp
  then have "(of_int n :: real) / 10 ^ k \<le> of_int (round_half_even (x * 10 ^ k)) / 10 ^ k"
    by (simp add: divide_right_mono)
  then show ?thesis unfolding py_round_def by (rule fl_mono)
qed

text \<open>Rounding to four places does not cross the float \<open>0.05\<close>, nor 0 and 1.\<close>

lemma py_round_4_bounds:
  "fl (5 / 100) \<le> x \<Longrightarrow> fl (5 / 100) \<le> py_round x 4"
  "x < fl (5 / 100) \<Longrightarrow> py_round x 4 \<le> fl (5 / 100)"
  "- fl (5 / 100) < x \<Longrightarrow> - fl (5 / 100) \<le> py_round x 4"
  "x \<le> - fl (5 / 100) \<Longrightarrow> py_round x 4 \<le> - fl (5 / 100)"
  "0 \<le> x \<Longrightarrow> 0 \<le> py_round x 4"
  "x \<le> 1 \<Longrightarrow> py_round x 4 \<le> 1"
  "- 1 \<le> x \<Longrightarrow> - 1 \<le> py_round x 4"
proof -
  show "fl (5 / 100) \<le> py_round x 4" if "fl (5 / 100) \<le> x"
  proof -
    from that have "of_int 500 \<le> x * 10 ^ 4" by (simp add: fl_values)
    then have "500 \<le> round_half_even (x * 10 ^ 4)" by (rule round_half_even_ge)
    from py_round_ge [OF this] show ?thesis by simp
  qed
  show "py_round x 4 \<le> fl (5 / 100)" if "x < fl (5 / 100)"
  proof -
    from that have "x * 10 ^ 4 < of_int 500 + 1 / 2" by (simp add: fl_values)
    then have "round_half_even (x * 10 ^ 4) \<le> 500" by (rule round_half_even_below)
    from py_round_le [OF this] show ?thesis by simp
  qed
  show "- fl (5 / 100) \<le> py_round x 4" if "- fl (5 / 100) < x"
  proof -
    from that have "of_int (- 500) - 1 / 2 < x * 10 ^ 4" by (simp add: fl_values)
    then have "- 500 \<le> round_half_even (x * 10 ^ 4)" by (rule round_half_even_above)
    from py_round_ge [OF this] show ?thesis by (simp add: fl_neg)
  qed
  show "py_round x 4 \<le> - fl (5 / 100)" if "x \<le> - fl (5 / 100)"
  proof -
    from that have "x * 10 ^ 4 \<le> of_int (- 500)" by (simp add: fl_values)
    then have "round_half_even (x * 10 ^ 4) \<le> - 500" by (rule round_half_even_le)
    from py_round_le [OF this] show ?thesis by (simp add: fl_neg)
  qed
  show "0 \<le> py_round x 4" if "0 \<le> x"
  proof -
    from that have "of_int 0 \<le> x * 10 ^ 4" by simp
    then have "0 \<le> round_half_even (x * 10 ^ 4)" by (rule round_half_even_ge)
    from py_round_ge [OF this] show ?thesis by (simp add: fl_0)
  qed
  show "py_round x 4 \<le> 1" if "x \<le> 1"
  proof -
    from that have "x * 10 ^ 4 \<le> of_int 10000" by simp
    then have "round_half_even (x * 10 ^ 4) \<le> 10000" by (rule round_half_even_le)
    from py_round_le [OF this] show ?thesis by (simp add: fl_values)
  qed
  show "- 1 \<le> py_round x 4" if "- 1 \<le> x"
  proof -
    from that have "of_int (- 10000) \<le> x * 10 ^ 4" by simp
    then have "- 10000 \<le> round_half_even (x * 10 ^ 4)" by (rule round_half_even_ge)
    from py_round_ge [OF this] show ?thesis by (simp add: fl_neg fl_values)
  qed
qed

section \<open>Batch scoring\<close>

lemma enumerate_shift:
  "map (\<lambda>(idx, text). f (i + idx) text) (enumerate 0 xs) = map (\<lambda>(k, text). f k text) (enumerate i xs)"
  by (rule nth_equalityI) (auto simp: nth_enumerate_eq)

lemma analyze_batch_loop_eq:
  "0 < batch_size \<Longrightarrow>
   analyze_batch_loop est texts batch_size i =
     map (\<lambda>(k, text). analyze_batch_item est k text) (enumerate i (drop i texts))"
proof (induction est texts batch_size i rule: analyze_batch_loop.induct)
  case (1 est texts batch_size i)
  show ?case
  proof (cases "length texts \<le> i")
    case True
    then show ?thesis by (subst analyze_batch_loop.simps) simp
  next
    case False
    let ?f = "\<lambda>(k, text). analyze_batch_item est k text"
    let ?d = "drop i texts"
    have len: "i + length (take batch_size ?d) = min (i + batch_size) (length texts)"
      using False by auto
    have rest: "analyze_batch_loop est texts batch_size (i + batch_size)
                = map ?f (enumerate (i + length (take batch_size ?d)) (drop batch_size ?d))"
    proof (cases "i + batch_size \<le> length texts")
      case True
      then have "i + length (take batch_size ?d) = i + batch_size" using len by simp
      then show ?thesis using 1 False by (simp add: add.commute)
    next
      case False
      then show ?thesis by (subst analyze_batch_loop.simps) simp
    qed
    have "map ?f (enumerate i ?d)
          = map ?f (enumerate i (take batch_size ?d @ drop batch_size ?d))"
      by (simp only: append_take_drop_id)
    also have "\<dots> = map ?f (enumerate i (take batch_size ?d))
                    @ map ?f (enumerate (i + length (take batch_size ?d)) (drop batch_size ?d))"
      by (simp only: enumerate_append_eq map_append)
    finally show ?thesis
      using False 1(2) rest
      by (subst analyze_batch_loop.simps) (simp add: enumerate_shift)
  qed
qed

text \<open>
  C2. For a list of \<open>N\<close> texts and a batch size of at least 1 (1000 when none is given),
  \<open>analyze_batch\<close> returns \<open>N\<close> rows; row \<open>k\<close> carries \<open>text_id = k\<close> and the \<open>k\<close>-th
  text; where the scoring of that text raises, the row has score 0, label Neutral and
  confidence 0, and otherwise the score, label and confidence that \<open>analyze_sentiment\<close>
  returned. One failing document does not end the batch.
\<close>

theorem analyze_batch_complete:
  assumes "0 < batch_size"
  shows "\<exists>rows. analyze_batch est texts batch_size = Inr rows
           \<and> length rows = length texts
           \<and> (\<forall>k < length texts.
                 text_id (rows ! k) = k \<and> original_text (rows ! k) = texts ! k
                 \<and> (case analyze_sentiment est (texts ! k) (fl (6 / 10)) (fl (4 / 10)) of
                       Inl e \<Rightarrow> score (rows ! k) = 0 \<and> label (rows ! k) = Neutral
                                  \<and> confidence (rows ! k) = 0
                     | Inr r \<Rightarrow> score (rows ! k) = score r \<and> label (rows ! k) = label r
                                  \<and> confidence (rows ! k) = confidence r))"
proof -
  have "analyze_batch est texts batch_size =
          Inr (map (\<lambda>(k, text). analyze_batch_item est k text) (enumerate 0 texts))"
    using assms by (simp add: analyze_batch_def analyze_batch_loop_eq)
  then show ?thesis
    by (auto simp: nth_enumerate_eq analyze_batch_item_def split: sum.splits)
qed

lemma clean_text_examples:
  "clean_text (PyStr ''fine'') = ''fine''"
  "clean_text (PyStr ''boom'') = ''boom''"
  "clean_text (PyStr ''nice'') = ''nice''"
  "clean_text (PyStr ''   '') = []"
  "clean_text (PyStr ''!!!'') = ''!!!''"
  by code_simp+

theorem analyze_batch_complete_witness:
  "(0 :: int) < 1000
   \<and> (\<exists>rows. analyze_batch example_estimators [PyStr ''fine'', PyNone, PyStr ''boom''] 1000 = Inr rows
          \<and> length rows = 3
          \<and> text_id (rows ! 2) = 2 \<and> original_text (rows ! 2) = PyStr ''boom''
          \<and> score (rows ! 2) = 0 \<and> label (rows ! 2) = Neutral \<and> confidence (rows ! 2) = 0)"
proof -
  have boom: "analyze_sentiment example_estimators (PyStr ''boom'') (fl (6 / 10)) (fl (4 / 10)) = Inl LibraryError"
    by (simp add: analyze_sentiment_def clean_text_examples analyze_sentiment_vader_def
        example_estimators_def del: clean_text.simps)
  obtain rows where r: "analyze_batch example_estimators [PyStr ''fine'', PyNone, PyStr ''boom''] 1000 = Inr rows"
    "length rows = length [PyStr ''fine'', PyNone, PyStr ''boom'']"
    "\<forall>k < length [PyStr ''fine'', PyNone, PyStr ''boom''].
        text_id (rows ! k) = k \<and> original_text (rows ! k) = [PyStr ''fine'', PyNone, PyStr ''boom''] ! k
        \<and> (case analyze_sentiment example_estimators ([PyStr ''fine'', PyNone, PyStr ''boom''] ! k) (fl (6 / 10)) (fl (4 / 10)) of
              Inl e \<Rightarrow> score (rows ! k) = 0 \<and> label (rows ! k) = Neutral \<and> confidence (rows ! k) = 0
            | Inr r \<Rightarrow> score (rows ! k) = score r \<and> label (rows ! k) = label r
                         \<and> confidence (rows ! k) = confidence r)"
    using analyze_batch_complete [of 1000 example_estimators "[PyStr ''fine'', PyNone, PyStr ''boom'']"]
    by auto
  from r(3) have "text_id (rows ! 2) = 2 \<and> original_text (rows ! 2) = PyStr ''boom''
        \<and> (case analyze_sentiment example_estimators (PyStr ''boom'') (fl (6 / 10)) (fl (4 / 10)) of
              Inl e \<Rightarrow> score (rows ! 2) = 0 \<and> label (rows ! 2) = Neutral \<and> confidence (rows ! 2) = 0
            | Inr r \<Rightarrow> score (rows ! 2) = score r \<and> label (rows ! 2) = label r
                         \<and> confidence (rows ! 2) = confidence r)"
    by (auto dest: spec [of _ 2])
  with boom r(1,2) show ?thesis by simp
qed

section \<open>Single-text scoring\<close>

lemma analyze_sentiment_falsy:
  "\<not> truthy text \<Longrightarrow>
   analyze_sentiment est text vw tw =
     Inr \<lparr>score = 0, label = Neutral, confidence = 0, vader_compound = 0,
          textblob_polarity = 0, subjectivity = 0\<rparr>"
  by (simp add: analyze_sentiment_def)

lemma analyze_sentiment_scored:
  assumes "truthy text"
    and "analyze_sentiment_vader est (clean_text text) = Inr v"
    and "analyze_sentiment_textblob est (clean_text text) = Inr (p, s)"
  shows "analyze_sentiment est text vw tw =
     Inr \<lparr>score = py_round (fl (fl (v * vw) + fl (p * tw))) 4,
          label = (if fl (5 / 100) \<le> fl (fl (v * vw) + fl (p * tw)) then Positive
                   else if fl (fl (v * vw) + fl (p * tw)) \<le> - fl (5 / 100) then Negative
                   else Neutral),
          confidence =
            py_round (min (fl (\<bar>fl (fl (v * vw) + fl (p * tw))\<bar>
                               * fl (1 - fl (\<bar>fl (v - p)\<bar> / 2)))) 1) 4,
          vader_compound = py_round v 4, textblob_polarity = py_round p 4,
          subjectivity = py_round s 4\<rparr>"
  using assms by (simp add: analyze_sentiment_def Let_def del: clean_text.simps)

lemma analyze_sentiment_Inr_truthy:
  assumes "analyze_sentiment est text vw tw = Inr r" and "truthy text"
  obtains v p s where "analyze_sentiment_vader est (clean_text text) = Inr v"
    and "analyze_sentiment_textblob est (clean_text text) = Inr (p, s)"
  using assms
  by (auto simp: analyze_sentiment_def Let_def simp del: clean_text.simps split: sum.splits)

lemma threshold_pos: "0 < fl (5 / 100)"
  by (simp add: fl_values)

text \<open>
  The combined score is a float. For a compound score of 0.25 and a polarity of -0.25
  it is just below the float \<open>0.05\<close>, where the exact sum would be 0.05; for a compound
  score of -0.25 alone the confidence 0.13125 comes out just above the tie and is rounded
  to 0.1313.
\<close>

lemma combined_score_float:
  "fl (fl (1 / 4 * fl (6 / 10)) + fl (- (1 / 4) * fl (4 / 10))) < fl (5 / 100)"
  "py_round (min (fl (\<bar>fl (fl (- (1 / 4) * fl (6 / 10)) + fl (0 * fl (4 / 10)))\<bar>
                      * fl (1 - fl (\<bar>fl (- (1 / 4) - 0)\<bar> / 2)))) 1) 4 = fl (1313 / 10000)"
  by code_simp+

text \<open>
  C1 (as amended). The label follows the fixed thresholds on the combined score before
  it is rounded, the float \<open>compound * vader_weight + polarity * textblob_weight\<close>: at
  least the float \<open>0.05\<close> gives Positive, at most \<open>-0.05\<close> Negative, anything else Neutral.
  The returned score is that float rounded to four decimals, so a returned score above
  \<open>0.05\<close> goes with Positive, one below \<open>-0.05\<close> with Negative, one strictly between with
  Neutral; a returned score of exactly \<open>0.05\<close> or \<open>-0.05\<close> fixes no label.
\<close>

theorem analyze_sentiment_label_thresholds:
  assumes "analyze_sentiment est text vw tw = Inr r"
  shows "(fl (5 / 100) < score r \<longrightarrow> label r = Positive)
       \<and> (score r < - fl (5 / 100) \<longrightarrow> label r = Negative)
       \<and> (- fl (5 / 100) < score r \<and> score r < fl (5 / 100) \<longrightarrow> label r = Neutral)
       \<and> (truthy text \<longrightarrow>
            (\<exists>v p s. analyze_sentiment_vader est (clean_text text) = Inr v
               \<and> analyze_sentiment_textblob est (clean_text text) = Inr (p, s)
               \<and> score r = py_round (fl (fl (v * vw) + fl (p * tw))) 4
               \<and> label r = (if fl (5 / 100) \<le> fl (fl (v * vw) + fl (p * tw)) then Positive
                            else if fl (fl (v * vw) + fl (p * tw)) \<le> - fl (5 / 100) then Negative
                            else Neutral)))"
proof (cases "truthy text")
  case False
  with assms threshold_pos show ?thesis by (auto simp: analyze_sentiment_falsy)
next
  case True
  from assms True obtain v p s
    where v: "analyze_sentiment_vader est (clean_text text) = Inr v"
      and p: "analyze_sentiment_textblob est (clean_text text) = Inr (p, s)"
    by (rule analyze_sentiment_Inr_truthy)
  define c where "c = fl (fl (v * vw) + fl (p * tw))"
  define T where "T = fl (5 / 100)"
  from assms have r: "score r = py_round c 4"
    "label r = (if T \<le> c then Positive else if c \<le> - T then Negative else Neutral)"
    unfolding c_def T_def by (auto simp: analyze_sentiment_scored [OF True v p])
  have T: "0 < T" unfolding T_def by (rule threshold_pos)
  have pb: "T \<le> c \<Longrightarrow> T \<le> py_round c 4" "c < T \<Longrightarrow> py_round c 4 \<le> T"
    "- T < c \<Longrightarrow> - T \<le> py_round c 4" "c \<le> - T \<Longrightarrow> py_round c 4 \<le> - T"
    unfolding T_def by (fact py_round_4_bounds)+
  have up: "T \<le> c" if "T < score r"
    using pb(2) r(1) that by (cases "T \<le> c") auto
  have down: "c \<le> - T" if "score r < - T"
    using pb(3) r(1) that by (cases "c \<le> - T") auto
  have mid1: "\<not> T \<le> c" if "score r < T"
    using pb(1) r(1) that by auto
  have mid2: "\<not> c \<le> - T" if "- T < score r"
    using pb(4) r(1) that by auto
  have "T < score r \<longrightarrow> label r = Positive"
    using up r(2) by simp
  moreover have "score r < - T \<longrightarrow> label r = Negative"
    using down r(2) T by auto
  moreover have "- T < score r \<and> score r < T \<longrightarrow> label r = Neutral"
    using mid1 mid2 r(2) by simp
  moreover have "\<exists>v p s. analyze_sentiment_vader est (clean_text text) = Inr v
               \<and> analyze_sentiment_textblob est (clean_text text) = Inr (p, s)
               \<and> score r = py_round (fl (fl (v * vw) + fl (p * tw))) 4
               \<and> label r = (if T \<le> fl (fl (v * vw) + fl (p * tw)) then Positive
                            else if fl (fl (v * vw) + fl (p * tw)) \<le> - T then Negative
                            else Neutral)"
    using v p r unfolding c_def by blast
  ultimately show ?thesis using True unfolding T_def by blast
qed

lemma example_fine:
  "analyze_sentiment example_estimators (PyStr ''fine'') (fl (6 / 10)) (fl (4 / 10)) =
     Inr \<lparr>score = fl (5 / 100), label = Neutral, confidence = fl (479 / 10000),
          vader_compound = fl (833 / 10000), textblob_polarity = 0, subjectivity = 0\<rparr>"
proof -
  have t: "truthy (PyStr ''fine'')" by simp
  have v: "analyze_sentiment_vader example_estimators (clean_text (PyStr ''fine''))
           = Inr (fl (833 / 10000))"
    by (simp add: clean_text_examples analyze_sentiment_vader_def example_estimators_def
        del: clean_text.simps)
  have p: "analyze_sentiment_textblob example_estimators (clean_text (PyStr ''fine'')) = Inr (0, 0)"
    by (simp add: clean_text_examples analyze_sentiment_textblob_def example_estimators_def
        del: clean_text.simps)
  show ?thesis
    unfolding analyze_sentiment_scored [OF t v p]
    by (simp add: py_round_def round_half_even_def Let_def fl_values fl_0)
qed

lemma example_nice:
  "analyze_sentiment example_estimators (PyStr ''nice'') (fl (6 / 10)) (fl (4 / 10)) =
     Inr \<lparr>score = fl (238 / 1000), label = Positive, confidence = fl (2106 / 10000),
          vader_compound = fl (33 / 100), textblob_polarity = fl (1 / 10), subjectivity = 1 / 2\<rparr>"
proof -
  have t: "truthy (PyStr ''nice'')" by simp
  have v: "analyze_sentiment_vader example_estimators (clean_text (PyStr ''nice''))
           = Inr (fl (33 / 100))"
    by (simp add: clean_text_examples analyze_sentiment_vader_def example_estimators_def
        del: clean_text.simps)
  have p: "analyze_sentiment_textblob example_estimators (clean_text (PyStr ''nice''))
           = Inr (fl (1 / 10), 1 / 2)"
    by (simp add: clean_text_examples analyze_sentiment_textblob_def example_estimators_def
        del: clean_text.simps)
  show ?thesis
    unfolding analyze_sentiment_scored [OF t v p]
    by (simp add: py_round_def round_half_even_def Let_def fl_values fl_0)
qed

theorem analyze_sentiment_label_thresholds_witness:
  "analyze_sentiment example_estimators (PyStr ''nice'') (fl (6 / 10)) (fl (4 / 10)) =
     Inr \<lparr>score = fl (238 / 1000), label = Positive, confidence = fl (2106 / 10000),
          vader_compound = fl (33 / 100), textblob_polarity = fl (1 / 10), subjectivity = 1 / 2\<rparr>
   \<and> fl (5 / 100) < fl (238 / 1000)
   \<and> label \<lparr>score = fl (238 / 1000), label = Positive, confidence = fl (2106 / 10000),
          vader_compound = fl (33 / 100), textblob_polarity = fl (1 / 10), subjectivity = 1 / 2\<rparr>
       = Positive"
  using analyze_sentiment_label_thresholds [OF example_nice] example_nice
  by (simp add: fl_values)

text \<open>
  The claim as first stated fails: VADER's 0.0833 alone gives the combined score 0.04998,
  below the threshold, so the label is Neutral, while the returned score is 0.05.
\<close>

theorem analyze_sentiment_label_counterexample:
  "analyze_sentiment example_estimators (PyStr ''fine'') (fl (6 / 10)) (fl (4 / 10)) =
     Inr \<lparr>score = fl (5 / 100), label = Neutral, confidence = fl (479 / 10000),
          vader_compound = fl (833 / 10000), textblob_polarity = 0, subjectivity = 0\<rparr>"
  by (rule example_fine)

text \<open>
  C6 (as amended). The returned confidence is
  \<open>min(|combined| * (1 - |compound - polarity| / 2), 1)\<close>, evaluated in float arithmetic
  and then rounded to four decimals, where \<open>combined\<close> is the weighted sum of the two
  estimates for the cleaned text (the confidence is 0 for a falsy text). With the default
  weights 0.6 and 0.4, a compound score and a polarity in \<open>[-1, 1]\<close> and a subjectivity in
  \<open>[0, 1]\<close>, the returned score lies in \<open>[-1, 1]\<close> and the returned confidence and
  subjectivity in \<open>[0, 1]\<close>.
\<close>

theorem analyze_sentiment_confidence:
  assumes "analyze_sentiment est text vw tw = Inr r"
  shows "(\<not> truthy text \<longrightarrow> score r = 0 \<and> confidence r = 0 \<and> subjectivity r = 0)
       \<and> (truthy text \<longrightarrow>
            (\<exists>v p s. analyze_sentiment_vader est (clean_text text) = Inr v
               \<and> analyze_sentiment_textblob est (clean_text text) = Inr (p, s)
               \<and> confidence r =
                   py_round (min (fl (\<bar>fl (fl (v * vw) + fl (p * tw))\<bar>
                                      * fl (1 - fl (\<bar>fl (v - p)\<bar> / 2)))) 1) 4
               \<and> (vw = fl (6 / 10) \<and> tw = fl (4 / 10) \<and> - 1 \<le> v \<and> v \<le> 1 \<and> - 1 \<le> p \<and> p \<le> 1
                    \<and> 0 \<le> s \<and> s \<le> 1 \<longrightarrow>
                  - 1 \<le> score r \<and> score r \<le> 1 \<and> 0 \<le> confidence r \<and> confidence r \<le> 1
                  \<and> 0 \<le> subjectivity r \<and> subjectivity r \<le> 1)))"
proof (cases "truthy text")
  case False
  with assms show ?thesis by (auto simp: analyze_sentiment_falsy)
next
  case True
  from assms True obtain v p s
    where v: "analyze_sentiment_vader est (clean_text text) = Inr v"
      and p: "analyze_sentiment_textblob est (clean_text text) = Inr (p, s)"
    by (rule analyze_sentiment_Inr_truthy)
  define c where "c = fl (fl (v * vw) + fl (p * tw))"
  define agr where "agr = fl (1 - fl (\<bar>fl (v - p)\<bar> / 2))"
  define conf where "conf = min (fl (\<bar>c\<bar> * agr)) 1"
  from assms have r: "score r = py_round c 4" "confidence r = py_round conf 4"
    "subjectivity r = py_round s 4"
    unfolding c_def agr_def conf_def by (auto simp: analyze_sentiment_scored [OF True v p])
  have bounds: "- 1 \<le> score r \<and> score r \<le> 1 \<and> 0 \<le> confidence r \<and> confidence r \<le> 1
                  \<and> 0 \<le> subjectivity r \<and> subjectivity r \<le> 1"
    if h: "vw = fl (6 / 10)" "tw = fl (4 / 10)" "- 1 \<le> v" "v \<le> 1" "- 1 \<le> p" "p \<le> 1"
      "0 \<le> s" "s \<le> 1"
  proof -
    have w: "0 \<le> vw" "0 \<le> tw" "vw + tw = 1" "fl vw = vw" "fl tw = tw"
      unfolding h(1,2) by (simp_all add: fl_values)
    have "v * vw \<le> 1 * vw" using h(4) w(1) by (rule mult_right_mono)
    moreover have "- 1 * vw \<le> v * vw" using h(3) w(1) by (rule mult_right_mono)
    ultimately have a: "fl (v * vw) \<le> vw" "- vw \<le> fl (v * vw)"
      using fl_mono [of "v * vw" vw] fl_mono [of "- vw" "v * vw"] w(4) by (simp_all add: fl_neg)
    have "p * tw \<le> 1 * tw" using h(6) w(2) by (rule mult_right_mono)
    moreover have "- 1 * tw \<le> p * tw" using h(5) w(2) by (rule mult_right_mono)
    ultimately have b: "fl (p * tw) \<le> tw" "- tw \<le> fl (p * tw)"
      using fl_mono [of "p * tw" tw] fl_mono [of "- tw" "p * tw"] w(5) by (simp_all add: fl_neg)
    from a b w(3) have "fl (v * vw) + fl (p * tw) \<le> 1" "- 1 \<le> fl (v * vw) + fl (p * tw)"
      by linarith+
    then have c: "c \<le> 1" "- 1 \<le> c" unfolding c_def by (simp_all add: fl_mono_const)
    from h(3-6) have "v - p \<le> 2" "- 2 \<le> v - p" by linarith+
    then have "fl (v - p) \<le> 2" "- 2 \<le> fl (v - p)" by (simp_all add: fl_mono_const)
    then have "0 \<le> \<bar>fl (v - p)\<bar> / 2" "\<bar>fl (v - p)\<bar> / 2 \<le> 1" by simp_all
    then have "0 \<le> fl (\<bar>fl (v - p)\<bar> / 2)" "fl (\<bar>fl (v - p)\<bar> / 2) \<le> 1"
      by (simp_all add: fl_nonneg fl_mono_const)
    then have "0 \<le> 1 - fl (\<bar>fl (v - p)\<bar> / 2)" "1 - fl (\<bar>fl (v - p)\<bar> / 2) \<le> 1" by simp_all
    then have agr: "0 \<le> agr" "agr \<le> 1" unfolding agr_def by (simp_all add: fl_nonneg fl_mono_const)
    from c have "\<bar>c\<bar> \<le> 1" by simp
    with agr have "0 \<le> \<bar>c\<bar> * agr" "\<bar>c\<bar> * agr \<le> 1" by (simp_all add: mult_le_one)
    then have "0 \<le> fl (\<bar>c\<bar> * agr)" by (simp add: fl_nonneg)
    then have conf: "0 \<le> conf" "conf \<le> 1" unfolding conf_def by simp_all
    show ?thesis
      using c conf h(7,8) r by (simp add: py_round_4_bounds)
  qed
  show ?thesis using True v p r(2) bounds unfolding c_def agr_def conf_def by blast
qed

theorem analyze_sentiment_confidence_witness:
  "analyze_sentiment example_estimators (PyStr ''nice'') (fl (6 / 10)) (fl (4 / 10)) =
     Inr \<lparr>score = fl (238 / 1000), label = Positive, confidence = fl (2106 / 10000),
          vader_compound = fl (33 / 100), textblob_polarity = fl (1 / 10), subjectivity = 1 / 2\<rparr>
   \<and> truthy (PyStr ''nice'')
   \<and> fl (2106 / 10000)
       = py_round (min (fl (\<bar>fl (fl (fl (33 / 100) * fl (6 / 10)) + fl (fl (1 / 10) * fl (4 / 10)))\<bar>
                            * fl (1 - fl (\<bar>fl (fl (33 / 100) - fl (1 / 10))\<bar> / 2)))) 1) 4"
proof -
  from analyze_sentiment_confidence [OF example_nice] obtain v p s
    where v: "analyze_sentiment_vader example_estimators (clean_text (PyStr ''nice'')) = Inr v"
      and p: "analyze_sentiment_textblob example_estimators (clean_text (PyStr ''nice'')) = Inr (p, s)"
      and c: "fl (2106 / 10000)
              = py_round (min (fl (\<bar>fl (fl (v * fl (6 / 10)) + fl (p * fl (4 / 10)))\<bar>
                                   * fl (1 - fl (\<bar>fl (v - p)\<bar> / 2)))) 1) 4"
    by auto
  from v have ve: "v = fl (33 / 100)"
    by (simp add: clean_text_examples analyze_sentiment_vader_def example_estimators_def
        del: clean_text.simps)
  from p have pe: "p = fl (1 / 10)"
    by (simp add: clean_text_examples analyze_sentiment_textblob_def example_estimators_def
        del: clean_text.simps)
  have t: "truthy (PyStr ''nice'')" by simp
  from c [unfolded ve pe] example_nice t show ?thesis by blast
qed

text \<open>
  The claim as first stated fails: for a compound score of 0.33 and a polarity of 0.1 the
  formula gives 0.21063, and the returned confidence is 0.2106.
\<close>

theorem analyze_sentiment_confidence_counterexample:
  "analyze_sentiment example_estimators (PyStr ''nice'') (fl (6 / 10)) (fl (4 / 10)) =
     Inr \<lparr>score = fl (238 / 1000), label = Positive, confidence = fl (2106 / 10000),
          vader_compound = fl (33 / 100), textblob_polarity = fl (1 / 10), subjectivity = 1 / 2\<rparr>
   \<and> min (fl (\<bar>fl (fl (fl (33 / 100) * fl (6 / 10)) + fl (fl (1 / 10) * fl (4 / 10)))\<bar>
               * fl (1 - fl (\<bar>fl (fl (33 / 100) - fl (1 / 10))\<bar> / 2)))) 1
       = fl (21063 / 100000)
   \<and> fl (2106 / 10000) < fl (21063 / 100000)"
  using example_nice by (simp add: fl_values)

section \<open>Normalization\<close>

lemma lower_char_idem: "lower_char (lower_char c) = lower_char c"
proof -
  have "of_char c < (256::nat)" by simp
  then show ?thesis
    unfolding lower_char_def Let_def
    by (auto simp: of_char_of take_bit_eq_mod)
qed

lemma lower_char_space: "lower_char CHR '' '' = CHR '' ''"
  by (simp add: lower_char_def)

lemma space_is_space: "is_space CHR '' ''"
  by (simp add: is_space_def)

lemma space_not_punct: "\<not> is_punct CHR '' ''"
  by (simp add: is_punct_def)

lemma is_space_not_punct: "is_space c \<Longrightarrow> \<not> is_punct c"
  by (auto simp: is_space_def is_punct_def)

lemma at_hash_punct: "is_punct CHR ''@''" "is_punct CHR ''#''"
  by (simp_all add: is_punct_def)

subsection \<open>Substitution where nothing matches\<close>

lemma re_sub_no_match:
  "(\<And>t p. suffix t s \<Longrightarrow> t \<noteq> [] \<Longrightarrow> m p t = 0) \<Longrightarrow> re_sub m prev 0 s = s"
proof (induction s arbitrary: prev)
  case Nil
  then show ?case by simp
next
  case (Cons c cs)
  have "m prev (c # cs) = 0" using Cons.prems [of "c # cs" prev] by simp
  moreover have "re_sub m (Some c) 0 cs = cs"
    using Cons.prems by (intro Cons.IH) (simp add: suffix_Cons)
  ultimately show ?case by simp
qed

lemma set_re_sub: "set (re_sub m prev k s) \<subseteq> set s"
  by (induction m prev k s rule: re_sub.induct) (auto split: nat.splits)

lemma has_url_suffix: "\<not> has_url s \<Longrightarrow> suffix t s \<Longrightarrow> t \<noteq> [] \<Longrightarrow> match_url t = 0"
  by (induction s) (auto simp: suffix_Cons)

lemma match_mention_head:
  "0 < match_mention t \<Longrightarrow> CHR ''@'' \<in> set t \<or> CHR ''#'' \<in> set t"
  by (cases t) (auto simp: match_mention_def match_sigil_w_def alt_def split: if_splits)

lemma match_email_at: "0 < match_email t \<Longrightarrow> CHR ''@'' \<in> set t"
proof -
  assume "0 < match_email t"
  then have "CHR ''@'' \<in> set (butlast (tl (non_space_run t)))"
    by (simp add: match_email_def Let_def split: if_splits)
  then have "CHR ''@'' \<in> set (tl (non_space_run t))"
    by (rule in_set_butlastD)
  then have "CHR ''@'' \<in> set (non_space_run t)"
    by (cases "non_space_run t") simp_all
  then show ?thesis
    unfolding non_space_run_def by (rule set_takeWhileD [THEN conjunct1])
qed

subsection \<open>Words, \<open>split\<close> and \<open>join\<close>\<close>

lemma split_acc_run:
  "\<forall>c \<in> set u. \<not> is_space c \<Longrightarrow> split_acc w (u @ rest) = split_acc (w @ u) rest"
  by (induction u arbitrary: w) auto

lemma split_acc_good:
  "\<forall>c \<in> set w. \<not> is_space c \<Longrightarrow> x \<in> set (split_acc w u) \<Longrightarrow>
   x \<noteq> [] \<and> (\<forall>c \<in> set x. \<not> is_space c)"
proof (induction u arbitrary: w)
  case Nil
  then show ?case by (cases "w = []") simp_all
next
  case (Cons c u)
  show ?case
  proof (cases "is_space c")
    case False
    with Cons.prems have "x \<in> set (split_acc (w @ [c]) u)" by simp
    moreover have "\<forall>d \<in> set (w @ [c]). \<not> is_space d" using Cons.prems(1) False by simp
    ultimately show ?thesis by (rule Cons.IH [rotated])
  next
    case True
    have e: "\<forall>d \<in> set ([] :: string). \<not> is_space d" by simp
    show ?thesis
    proof (cases "w = []")
      case True
      with \<open>is_space c\<close> Cons.prems have "x \<in> set (split_acc [] u)" by simp
      with e show ?thesis by (rule Cons.IH)
    next
      case False
      with \<open>is_space c\<close> Cons.prems have "x = w \<or> x \<in> set (split_acc [] u)" by simp
      then show ?thesis
      proof
        assume "x = w"
        with False Cons.prems(1) show ?thesis by simp
      next
        assume "x \<in> set (split_acc [] u)"
        with e show ?thesis by (rule Cons.IH)
      qed
    qed
  qed
qed

lemma set_split_acc: "x \<in> set (split_acc w u) \<Longrightarrow> set x \<subseteq> set w \<union> set u"
proof (induction u arbitrary: w)
  case Nil
  then show ?case by (cases "w = []") simp_all
next
  case (Cons c u)
  show ?case
  proof (cases "is_space c")
    case False
    with Cons.prems have "x \<in> set (split_acc (w @ [c]) u)" by simp
    then have "set x \<subseteq> set (w @ [c]) \<union> set u" by (rule Cons.IH)
    then show ?thesis by auto
  next
    case True
    show ?thesis
    proof (cases "w = []")
      case True
      with \<open>is_space c\<close> Cons.prems have "x \<in> set (split_acc [] u)" by simp
      then have "set x \<subseteq> set [] \<union> set u" by (rule Cons.IH)
      then show ?thesis by auto
    next
      case False
      with \<open>is_space c\<close> Cons.prems have "x = w \<or> x \<in> set (split_acc [] u)" by simp
      then show ?thesis
      proof
        assume "x = w"
        then show ?thesis by auto
      next
        assume "x \<in> set (split_acc [] u)"
        then have "set x \<subseteq> set [] \<union> set u" by (rule Cons.IH)
        then show ?thesis by auto
      qed
    qed
  qed
qed

lemma py_split_good:
  "x \<in> set (py_split u) \<Longrightarrow> x \<noteq> [] \<and> (\<forall>c \<in> set x. \<not> is_space c)"
  unfolding py_split_def by (rule split_acc_good) simp_all

lemma set_py_split: "x \<in> set (py_split u) \<Longrightarrow> set x \<subseteq> set u"
  unfolding py_split_def by (drule set_split_acc) simp

lemma set_py_join: "set (py_join sep ws) \<subseteq> set sep \<union> \<Union> (set ` set ws)"
  by (induction sep ws rule: py_join.induct) auto

lemma py_split_join:
  "\<forall>x \<in> set ws. x \<noteq> [] \<and> (\<forall>c \<in> set x. \<not> is_space c) \<Longrightarrow> py_split (py_join '' '' ws) = ws"
proof (induction "'' ''" ws rule: py_join.induct)
  case 1
  then show ?case by (simp add: py_split_def)
next
  case (2 x)
  then show ?case using split_acc_run [of x "[]" "[]"] by (simp add: py_split_def)
next
  case (3 x y ys)
  have "split_acc [] (x @ '' '' @ py_join '' '' (y # ys))
        = split_acc x ('' '' @ py_join '' '' (y # ys))"
    using 3 split_acc_run [of x "[]"] by simp
  also have "\<dots> = x # split_acc [] (py_join '' '' (y # ys))"
    using 3 by (simp add: space_is_space)
  finally show ?case using 3 by (simp add: py_split_def)
qed

lemma sub_ws_run:
  "\<forall>c \<in> set u. \<not> is_space c \<Longrightarrow> u \<noteq> [] \<Longrightarrow> sub_ws b (u @ rest) = u @ sub_ws False rest"
proof (induction u arbitrary: b)
  case Nil
  then show ?case by simp
next
  case (Cons c u)
  then show ?case by (cases u) auto
qed

lemma sub_ws_join:
  "\<forall>x \<in> set ws. x \<noteq> [] \<and> (\<forall>c \<in> set x. \<not> is_space c) \<Longrightarrow>
   sub_ws b (py_join '' '' ws) = py_join '' '' ws"
proof (induction "'' ''" ws arbitrary: b rule: py_join.induct)
  case 1
  then show ?case by simp
next
  case (2 x)
  then show ?case using sub_ws_run [of x b "[]"] by simp
next
  case (3 x y ys)
  have "sub_ws b (x @ '' '' @ py_join '' '' (y # ys))
        = x @ sub_ws False ('' '' @ py_join '' '' (y # ys))"
    using 3 by (intro sub_ws_run) simp_all
  also have "\<dots> = x @ '' '' @ sub_ws True (py_join '' '' (y # ys))"
    by (simp add: space_is_space)
  finally show ?case using 3 by simp
qed

lemma hd_py_join: "x \<noteq> [] \<Longrightarrow> hd (py_join sep (x # xs)) = hd x"
  by (cases xs) simp_all

lemma py_join_last_nonempty: "ws \<noteq> [] \<Longrightarrow> last ws \<noteq> [] \<Longrightarrow> py_join sep ws \<noteq> []"
  by (induction sep ws rule: py_join.induct) simp_all

lemma last_py_join:
  "ws \<noteq> [] \<Longrightarrow> last ws \<noteq> [] \<Longrightarrow> last (py_join sep ws) = last (last ws)"
proof (induction sep ws rule: py_join.induct)
  case (3 sep x y ys)
  then have "py_join sep (y # ys) \<noteq> []" by (intro py_join_last_nonempty) simp_all
  with 3 show ?case by simp
qed simp_all

lemma py_join_Nil_iff: "\<forall>x \<in> set ws. x \<noteq> [] \<Longrightarrow> py_join sep ws = [] \<longleftrightarrow> ws = []"
  by (induction sep ws rule: py_join.induct) auto

lemma py_strip_id:
  "s = [] \<or> (\<not> is_space (hd s) \<and> \<not> is_space (last s)) \<Longrightarrow> py_strip s = s"
proof (cases s)
  case Nil
  then show ?thesis by (simp add: py_strip_def)
next
  case (Cons c cs)
  assume "s = [] \<or> (\<not> is_space (hd s) \<and> \<not> is_space (last s))"
  with Cons have h: "\<not> is_space c" "\<not> is_space (last s)" by auto
  have 1: "dropWhile is_space s = s" using Cons h by simp
  have ne: "s \<noteq> []" using Cons by simp
  have "rev (butlast s @ [last s]) = last s # rev (butlast s)" by simp
  then have r: "rev s = last s # rev (butlast s)"
    unfolding append_butlast_last_id [OF ne] .
  have "dropWhile is_space (last s # rev (butlast s)) = last s # rev (butlast s)"
    using h(2) by simp
  then have "dropWhile is_space (rev s) = rev s" by (simp only: r)
  with 1 show ?thesis by (simp add: py_strip_def)
qed

lemma py_strip_join:
  assumes "\<forall>x \<in> set ws. x \<noteq> [] \<and> (\<forall>c \<in> set x. \<not> is_space c)"
  shows "py_strip (py_join '' '' ws) = py_join '' '' ws"
proof (cases ws)
  case Nil
  then show ?thesis by (simp add: py_strip_def)
next
  case (Cons x xs)
  have lw: "last ws \<in> set ws" using Cons by simp
  have "hd (py_join '' '' ws) = hd x" using Cons assms by (simp add: hd_py_join)
  moreover have "last (py_join '' '' ws) = last (last ws)"
    using Cons assms lw by (intro last_py_join) auto
  moreover have "\<not> is_space (hd x)" using Cons assms by (cases x) auto
  moreover have "\<not> is_space (last (last ws))" using assms lw by (metis last_in_set)
  ultimately show ?thesis by (intro py_strip_id) simp
qed

subsection \<open>The shape of a cleaned text\<close>

lemma set_sub_ws: "set (sub_ws b s) \<subseteq> insert (CHR '' '') (set s)"
  by (induction b s rule: sub_ws.induct) auto

lemma clean_text_unfold:
  "clean_text (PyStr t) =
     py_strip (py_join '' '' (py_split
       (filter (\<lambda>c. \<not> (is_punct c \<and> c \<notin> {CHR ''.'', CHR ''!'', CHR ''?''}))
         (sub_ws False (re_sub (\<lambda>_. match_email) None 0
           (re_sub (\<lambda>_. match_mention) None 0 (re_sub (\<lambda>_. match_url) None 0 (py_lower t))))))))"
  by (simp only: clean_text.simps Let_def)

lemma lower_fixed_pre:
  "c \<in> set (re_sub (\<lambda>_. match_email) None 0
           (re_sub (\<lambda>_. match_mention) None 0 (re_sub (\<lambda>_. match_url) None 0 (py_lower t))))
   \<Longrightarrow> lower_char c = c"
proof -
  assume "c \<in> set (re_sub (\<lambda>_. match_email) None 0
           (re_sub (\<lambda>_. match_mention) None 0 (re_sub (\<lambda>_. match_url) None 0 (py_lower t))))"
  then have "c \<in> set (re_sub (\<lambda>_. match_mention) None 0 (re_sub (\<lambda>_. match_url) None 0 (py_lower t)))"
    using set_re_sub by blast
  then have "c \<in> set (re_sub (\<lambda>_. match_url) None 0 (py_lower t))"
    using set_re_sub by blast
  then have "c \<in> set (py_lower t)"
    using set_re_sub by blast
  then obtain d where "c = lower_char d" unfolding py_lower_def by auto
  then show ?thesis by (simp add: lower_char_idem)
qed

lemma join_chars:
  "c \<in> set (py_join '' '' (py_split u)) \<Longrightarrow> c = CHR '' '' \<or> c \<in> set u"
proof -
  assume "c \<in> set (py_join '' '' (py_split u))"
  then have "c \<in> set '' '' \<union> \<Union> (set ` set (py_split u))" using set_py_join by blast
  then show ?thesis
  proof
    assume "c \<in> set '' ''"
    then show ?thesis by simp
  next
    assume "c \<in> \<Union> (set ` set (py_split u))"
    then obtain x where "x \<in> set (py_split u)" "c \<in> set x" by blast
    then show ?thesis using set_py_split by blast
  qed
qed

lemma clean_text_form:
  "\<exists>ws. clean_text (PyStr t) = py_join '' '' ws
     \<and> (\<forall>x \<in> set ws. x \<noteq> [] \<and> (\<forall>c \<in> set x. \<not> is_space c))
     \<and> (\<forall>c \<in> set (py_join '' '' ws). lower_char c = c
            \<and> \<not> (is_punct c \<and> c \<notin> {CHR ''.'', CHR ''!'', CHR ''?''}))"
proof -
  define t4 where "t4 = re_sub (\<lambda>_. match_email) None 0
     (re_sub (\<lambda>_. match_mention) None 0 (re_sub (\<lambda>_. match_url) None 0 (py_lower t)))"
  define t6 where "t6 = filter (\<lambda>c. \<not> (is_punct c \<and> c \<notin> {CHR ''.'', CHR ''!'', CHR ''?''}))
     (sub_ws False t4)"
  define ws where "ws = py_split t6"
  have good: "\<forall>x \<in> set ws. x \<noteq> [] \<and> (\<forall>c \<in> set x. \<not> is_space c)"
    unfolding ws_def using py_split_good by blast
  have "clean_text (PyStr t) = py_strip (py_join '' '' ws)"
    unfolding ws_def t6_def t4_def by (rule clean_text_unfold)
  then have eq: "clean_text (PyStr t) = py_join '' '' ws"
    using py_strip_join [OF good] by simp
  have t4: "lower_char c = c" if "c \<in> set t4" for c
    using that unfolding t4_def by (rule lower_fixed_pre)
  have t5: "lower_char c = c" if "c \<in> set (sub_ws False t4)" for c
  proof -
    from that set_sub_ws [of False t4] have "c = CHR '' '' \<or> c \<in> set t4" by blast
    then show ?thesis using t4 lower_char_space by blast
  qed
  have t6a: "lower_char c = c" if "c \<in> set t6" for c
    using that t5 unfolding t6_def by simp
  have t6b: "\<not> (is_punct c \<and> c \<notin> {CHR ''.'', CHR ''!'', CHR ''?''})" if "c \<in> set t6" for c
    using that unfolding t6_def by simp
  have "lower_char c = c \<and> \<not> (is_punct c \<and> c \<notin> {CHR ''.'', CHR ''!'', CHR ''?''})"
    if "c \<in> set (py_join '' '' ws)" for c
  proof -
    from that have "c = CHR '' '' \<or> c \<in> set t6" unfolding ws_def by (rule join_chars)
    then show ?thesis
    proof
      assume "c = CHR '' ''"
      then show ?thesis using lower_char_space space_not_punct by simp
    next
      assume "c \<in> set t6"
      then show ?thesis using t6a t6b by blast
    qed
  qed
  with eq good show ?thesis by blast
qed

lemma clean_text_fixed:
  assumes good: "\<forall>x \<in> set ws. x \<noteq> [] \<and> (\<forall>c \<in> set x. \<not> is_space c)"
    and chars: "\<forall>c \<in> set (py_join '' '' ws). lower_char c = c
            \<and> \<not> (is_punct c \<and> c \<notin> {CHR ''.'', CHR ''!'', CHR ''?''})"
    and url: "\<not> has_url (py_join '' '' ws)"
  shows "clean_text (PyStr (py_join '' '' ws)) = py_join '' '' ws"
proof -
  let ?s = "py_join '' '' ws"
  have 1: "py_lower ?s = ?s"
    unfolding py_lower_def using chars by (intro map_idI) simp
  have 2: "re_sub (\<lambda>_. match_url) None 0 ?s = ?s"
  proof (rule re_sub_no_match)
    fix t :: string and p :: "char option"
    assume "suffix t ?s" "t \<noteq> []"
    with url show "match_url t = 0" by (rule has_url_suffix)
  qed
  have "\<not> (\<not> (is_punct CHR ''@'' \<and> CHR ''@'' \<notin> {CHR ''.'', CHR ''!'', CHR ''?''}))"
    using at_hash_punct by simp
  then have no_at: "CHR ''@'' \<notin> set ?s" using chars by blast
  have "\<not> (\<not> (is_punct CHR ''#'' \<and> CHR ''#'' \<notin> {CHR ''.'', CHR ''!'', CHR ''?''}))"
    using at_hash_punct by simp
  then have no_hash: "CHR ''#'' \<notin> set ?s" using chars by blast
  have 3: "re_sub (\<lambda>_. match_mention) None 0 ?s = ?s"
  proof (rule re_sub_no_match)
    fix t :: string and p :: "char option"
    assume "suffix t ?s" "t \<noteq> []"
    then have "set t \<subseteq> set ?s" by (simp add: set_mono_suffix)
    with no_at no_hash have "CHR ''@'' \<notin> set t" "CHR ''#'' \<notin> set t" by blast+
    then show "match_mention t = 0" using match_mention_head [of t] by blast
  qed
  have 4: "re_sub (\<lambda>_. match_email) None 0 ?s = ?s"
  proof (rule re_sub_no_match)
    fix t :: string and p :: "char option"
    assume "suffix t ?s" "t \<noteq> []"
    then have "set t \<subseteq> set ?s" by (simp add: set_mono_suffix)
    with no_at have "CHR ''@'' \<notin> set t" by blast
    then show "match_email t = 0" using match_email_at [of t] by blast
  qed
  have 5: "sub_ws False ?s = ?s" using good by (rule sub_ws_join)
  have 6: "filter (\<lambda>c. \<not> (is_punct c \<and> c \<notin> {CHR ''.'', CHR ''!'', CHR ''?''})) ?s = ?s"
    using chars by (intro filter_True) blast
  have 7: "py_split ?s = ws" using good by (rule py_split_join)
  have 8: "py_strip ?s = ?s" using good by (rule py_strip_join)
  show ?thesis
    by (simp only: clean_text.simps Let_def 1 2 3 4 5 6 7 8)
qed

text \<open>
  C8 (as amended). Sentiment-mode normalization is a function of the text alone, and
  normalizing a normalized text returns it unchanged whenever the normalized text has no
  URL-like token (\<open>http\<close> or \<open>www.\<close> directly followed by a non-whitespace character).
  Nothing of the kind is stated for topic-mode normalization.
\<close>

theorem clean_text_idempotent:
  assumes "\<not> has_url (clean_text text)"
  shows "clean_text (PyStr (clean_text text)) = clean_text text"
proof (cases "text")
  case (PyStr t)
  obtain ws where ws: "clean_text (PyStr t) = py_join '' '' ws"
      "\<forall>x \<in> set ws. x \<noteq> [] \<and> (\<forall>c \<in> set x. \<not> is_space c)"
      "\<forall>c \<in> set (py_join '' '' ws). lower_char c = c
            \<and> \<not> (is_punct c \<and> c \<notin> {CHR ''.'', CHR ''!'', CHR ''?''})"
    using clean_text_form by blast
  from assms have "\<not> has_url (py_join '' '' ws)" unfolding PyStr ws(1) .
  with ws(2,3) have "clean_text (PyStr (py_join '' '' ws)) = py_join '' '' ws"
    by (rule clean_text_fixed)
  then show ?thesis unfolding PyStr ws(1) .
next
  case PyNone
  have "clean_text (PyStr []) = []" by code_simp
  then show ?thesis using PyNone by simp
next
  case (PyInt n)
  have "clean_text (PyStr []) = []" by code_simp
  then show ?thesis using PyInt by simp
qed

lemma clean_text_more_examples:
  "clean_text (PyStr ''Hello  World! see http://x.y @bob a@b.c #tag, ok'') = ''hello world! see a.c ok''"
  "clean_text (PyStr ''hello world! see a.c ok'') = ''hello world! see a.c ok''"
  "clean_text (PyStr ''h,ttpfoo'') = ''httpfoo''"
  "clean_text (PyStr ''httpfoo'') = []"
  by code_simp+

lemma has_url_examples:
  "\<not> has_url ''hello world! see a.c ok''"
  "has_url ''httpfoo''"
  by code_simp+

theorem clean_text_idempotent_witness:
  "\<not> has_url (clean_text (PyStr ''Hello  World! see http://x.y @bob a@b.c #tag, ok''))
   \<and> clean_text (PyStr (clean_text (PyStr ''Hello  World! see http://x.y @bob a@b.c #tag, ok'')))
       = ''hello world! see a.c ok''"
  using clean_text_idempotent [of "PyStr ''Hello  World! see http://x.y @bob a@b.c #tag, ok''"]
  by (simp only: clean_text_more_examples has_url_examples not_False_eq_True simp_thms)

text \<open>
  The claim as first stated fails in sentiment mode: the comma of \<open>h,ttpfoo\<close> is removed
  after the URL pattern has been tried, so the first pass gives \<open>httpfoo\<close>, which the
  second pass deletes as a URL. In topic mode \<open>h.ttpfoo bar\<close> gives \<open>httpfoo bar\<close> and
  then \<open>bar\<close> in the same way.
\<close>

theorem clean_text_idempotent_counterexample:
  "clean_text (PyStr ''h,ttpfoo'') = ''httpfoo''
   \<and> clean_text (PyStr (clean_text (PyStr ''h,ttpfoo''))) = []
   \<and> preprocess_text example_nltk (PyStr ''h.ttpfoo bar'') = ''httpfoo bar''
   \<and> preprocess_text example_nltk (PyStr (preprocess_text example_nltk (PyStr ''h.ttpfoo bar''))) = ''bar''"
proof -
  have "preprocess_text example_nltk (PyStr ''h.ttpfoo bar'') = ''httpfoo bar''"
    by code_simp
  moreover have "preprocess_text example_nltk (PyStr ''httpfoo bar'') = ''bar''"
    by code_simp
  ultimately show ?thesis by (simp only: clean_text_more_examples simp_thms)
qed

section \<open>Degenerate texts\<close>









section \<open>Stable sorting\<close>

lemma insort_key_stable:
  assumes "sorted_wrt (\<lambda>a b. f a < f b \<or> (f a = f b \<and> pos a < pos b)) ys"
    and "\<forall>y \<in> set ys. pos x < pos y"
  shows "sorted_wrt (\<lambda>a b. f a < f b \<or> (f a = f b \<and> pos a < (pos b :: nat))) (insort_key f x ys)"
  using assms
proof (induction ys)
  case Nil
  then show ?case by simp
next
  case (Cons y ys)
  show ?case
  proof (cases "f x \<le> f y")
    case True
    have "f x < f z \<or> (f x = f z \<and> pos x < pos z)" if "z \<in> set (y # ys)" for z
    proof -
      have "f y \<le> f z" using Cons.prems(1) that by auto
      with True have "f x \<le> f z" by simp
      moreover have "pos x < pos z" using Cons.prems(2) that by auto
      ultimately show ?thesis by auto
    qed
    then show ?thesis using True Cons.prems(1) by simp
  next
    case False
    have "sorted_wrt (\<lambda>a b. f a < f b \<or> (f a = f b \<and> pos a < pos b)) (insort_key f x ys)"
      using Cons by simp
    moreover have "f y < f z \<or> (f y = f z \<and> pos y < pos z)" if "z \<in> set (insort_key f x ys)" for z
    proof -
      from that have "z = x \<or> z \<in> set ys" by (simp add: set_insort_key)
      then show ?thesis using False Cons.prems(1) by auto
    qed
    ultimately show ?thesis using False by simp
  qed
qed

lemma sort_key_stable_sorted:
  "sorted_wrt (\<lambda>a b. pos a < (pos b :: nat)) xs \<Longrightarrow>
   sorted_wrt (\<lambda>a b. f a < f b \<or> (f a = f b \<and> pos a < pos b)) (sort_key f xs)"
proof (induction xs)
  case Nil
  then show ?case by simp
next
  case (Cons x xs)
  have "sorted_wrt (\<lambda>a b. f a < f b \<or> (f a = f b \<and> pos a < pos b)) (sort_key f xs)"
    using Cons by simp
  moreover have "\<forall>y \<in> set (sort_key f xs). pos x < pos y"
    using Cons.prems by simp
  ultimately show ?case
    by (simp add: insort_key_stable)
qed

lemma py_sort_desc_sorted:
  fixes key :: "'a \<Rightarrow> 'k :: {linordered_ab_group_add}"
  assumes "sorted_wrt (\<lambda>a b. pos a < (pos b :: nat)) xs"
  shows "sorted_wrt (\<lambda>a b. key b < key a \<or> (key a = key b \<and> pos a < pos b)) (py_sort_desc key xs)"
  using sort_key_stable_sorted [OF assms, of "\<lambda>x. - key x"]
  by (simp add: py_sort_desc_def)

lemma mset_py_sort_desc: "mset (py_sort_desc key xs) = mset xs"
  by (simp add: py_sort_desc_def)

lemma set_py_sort_desc: "set (py_sort_desc key xs) = set xs"
  by (simp add: py_sort_desc_def)

lemma length_py_sort_desc: "length (py_sort_desc key xs) = length xs"
  by (simp add: py_sort_desc_def)

lemma insort_key_map: "insort_key f (g x) (map g xs) = map g (insort_key (\<lambda>y. f (g y)) x xs)"
  by (induction xs) simp_all

lemma sort_key_map: "sort_key f (map g xs) = map g (sort_key (\<lambda>y. f (g y)) xs)"
  by (induction xs) (simp_all add: insort_key_map)

lemma py_sort_desc_map: "py_sort_desc key (map g xs) = map g (py_sort_desc (\<lambda>y. key (g y)) xs)"
  by (simp add: py_sort_desc_def sort_key_map)

section \<open>K-means extraction\<close>

lemma collect_Inr: "collect rs = Inr xs \<Longrightarrow> rs = map Inr xs"
proof (induction rs arbitrary: xs rule: collect.induct)
  case 1
  then show ?case by simp
next
  case (2 e rs)
  then show ?case by simp
next
  case (3 x rs)
  then show ?case by (cases "collect rs") auto
qed

lemma collect_map_Inr:
  assumes "collect (map f is) = Inr xs"
  shows "length xs = length is \<and> (\<forall>k < length is. f (is ! k) = Inr (xs ! k))"
proof -
  have e: "map f is = map Inr xs" using assms by (rule collect_Inr)
  then have l: "length is = length xs" by (metis length_map)
  have "f (is ! k) = Inr (xs ! k)" if "k < length is" for k
  proof -
    have "map f is ! k = map Inr xs ! k" using e by simp
    then show ?thesis using that l by simp
  qed
  with l show ?thesis by simp
qed

lemma kmeans_topic_fields:
  assumes "kmeans_topic sk names labels centers cluster_id = Inr t"
  shows "topic_id t = cluster_id
       \<and> document_count t = Some (length (filter (\<lambda>l. l = cluster_id) labels))"
  using assms
  by (auto simp: kmeans_topic_def Let_def split: sum.splits)

lemma count_indicator:
  "sum_list (map (\<lambda>c. if l = c then 1 else 0) [0 ..< n]) = (if l < n then 1 else (0 :: nat))"
  by (induction n) auto

lemma count_partition:
  "\<forall>l \<in> set ls. l < n \<Longrightarrow>
   sum_list (map (\<lambda>c. length (filter (\<lambda>l. l = c) ls)) [0 ..< n]) = length ls"
proof (induction ls)
  case Nil
  then show ?case by simp
next
  case (Cons l ls)
  have "sum_list (map (\<lambda>c. length (filter (\<lambda>l. l = c) (l # ls))) [0 ..< n])
        = sum_list (map (\<lambda>c. (if l = c then 1 else 0) + length (filter (\<lambda>l. l = c) ls)) [0 ..< n])"
    by (rule arg_cong [where f = sum_list]) simp
  also have "\<dots> = sum_list (map (\<lambda>c. if l = c then 1 else 0) [0 ..< n])
                  + sum_list (map (\<lambda>c. length (filter (\<lambda>l. l = c) ls)) [0 ..< n])"
    by (simp add: sum_list_addf)
  also have "\<dots> = 1 + length ls"
    using Cons by (simp add: count_indicator)
  finally show ?case by simp
qed

text \<open>What a successful run of the \<open>try\<close> block returns.\<close>

lemma kmeans_try_Inr:
  assumes "kmeans_try sk cleaned n_topics = Inr topics"
  obtains names M labels centers unsorted where
    "tfidf_fit_transform sk cleaned = Inr (names, M)"
    "kmeans_fit_predict sk (min n_topics (int (length cleaned))) M = Inr (labels, centers)"
    "length unsorted = nat (min n_topics (int (length cleaned)))"
    "\<forall>k < length unsorted. topic_id (unsorted ! k) = k
        \<and> document_count (unsorted ! k) = Some (length (filter (\<lambda>l. l = k) labels))"
    "topics = py_sort_desc (\<lambda>x. case document_count x of Some n \<Rightarrow> int n | None \<Rightarrow> 0) unsorted"
proof -
  from assms obtain names M where v: "tfidf_fit_transform sk cleaned = Inr (names, M)"
    by (auto simp: kmeans_try_def split: sum.splits)
  let ?n = "min n_topics (int (length cleaned))"
  from assms v obtain labels centers
    where k: "kmeans_fit_predict sk ?n M = Inr (labels, centers)"
    by (auto simp: kmeans_try_def Let_def split: sum.splits)
  from assms v k obtain unsorted
    where c: "collect (map (kmeans_topic sk names labels centers) [0 ..< nat ?n]) = Inr unsorted"
      and s: "topics = py_sort_desc (\<lambda>x. case document_count x of Some n \<Rightarrow> int n | None \<Rightarrow> 0) unsorted"
    by (auto simp: kmeans_try_def Let_def split: sum.splits)
  from collect_map_Inr [OF c]
  have l: "length unsorted = nat ?n"
    and f: "\<forall>k < nat ?n. kmeans_topic sk names labels centers ([0 ..< nat ?n] ! k) = Inr (unsorted ! k)"
    by simp_all
  have "topic_id (unsorted ! k) = k
        \<and> document_count (unsorted ! k) = Some (length (filter (\<lambda>l. l = k) labels))"
    if "k < length unsorted" for k
  proof -
    from that l f have "kmeans_topic sk names labels centers k = Inr (unsorted ! k)" by simp
    then show ?thesis by (rule kmeans_topic_fields)
  qed
  then show ?thesis using that [OF v k l _ s] by blast
qed

lemma sorted_wrt_index:
  "(\<And>i j. i < j \<Longrightarrow> j < length xs \<Longrightarrow> R (xs ! i) (xs ! j)) \<Longrightarrow> sorted_wrt R xs"
  by (simp add: sorted_wrt_iff_nth_less)

lemma kmeans_try_sorted:
  assumes "kmeans_try sk cleaned n_topics = Inr topics"
  shows "sorted_wrt (\<lambda>a b. \<exists>m n. document_count a = Some m \<and> document_count b = Some n
                          \<and> (n < m \<or> (m = n \<and> topic_id a < topic_id b))) topics"
proof -
  let ?key = "\<lambda>x. case document_count x of Some n \<Rightarrow> int n | None \<Rightarrow> 0"
  from assms obtain labels unsorted where
    u: "\<forall>k < length unsorted. topic_id (unsorted ! k) = k
        \<and> document_count (unsorted ! k) = Some (length (filter (\<lambda>l. l = k) labels))"
    and s: "topics = py_sort_desc ?key unsorted"
    by (rule kmeans_try_Inr) blast
  have "sorted_wrt (\<lambda>a b. topic_id a < topic_id b) unsorted"
    using u by (intro sorted_wrt_index) simp
  then have srt: "sorted_wrt (\<lambda>a b. ?key b < ?key a \<or> (?key a = ?key b \<and> topic_id a < topic_id b)) topics"
    unfolding s by (rule py_sort_desc_sorted)
  have dc: "\<exists>n. document_count t = Some n" if "t \<in> set topics" for t
  proof -
    from that have "t \<in> set unsorted" by (simp add: s set_py_sort_desc)
    then obtain k where "k < length unsorted" "t = unsorted ! k" by (auto simp: in_set_conv_nth)
    then show ?thesis using u by simp
  qed
  show ?thesis
  proof (rule sorted_wrt_mono_rel [OF _ srt])
    fix a b assume "a \<in> set topics" "b \<in> set topics"
      and r: "?key b < ?key a \<or> (?key a = ?key b \<and> topic_id a < topic_id b)"
    then obtain m n where mn: "document_count a = Some m" "document_count b = Some n"
      using dc by blast
    with r have "n < m \<or> (m = n \<and> topic_id a < topic_id b)" by simp
    with mn show "\<exists>m n. document_count a = Some m \<and> document_count b = Some n
                          \<and> (n < m \<or> (m = n \<and> topic_id a < topic_id b))" by blast
  qed
qed

subsection \<open>LDA extraction\<close>

lemma lda_topic_fields:
  assumes "lda_topic sk names topic_idx tpc = Inr t"
  shows "topic_id t = topic_idx \<and> document_count t = None"
  using assms
  by (auto simp: lda_topic_def Let_def split: sum.splits)

lemma lda_try_Inr:
  assumes "lda_try sk cleaned n_topics = Inr topics"
  shows "map topic_id topics = [0 ..< length topics]
       \<and> map document_count topics = replicate (length topics) None"
proof -
  from assms obtain names components where
    c: "collect (map (\<lambda>(topic_idx, tpc). lda_topic sk names topic_idx tpc)
                  (enumerate 0 components)) = Inr topics"
    by (auto simp: lda_try_def split: sum.splits prod.splits)
  from collect_map_Inr [OF c] have
    l: "length topics = length components"
    and e: "\<And>k. k < length components \<Longrightarrow>
              lda_topic sk names k (components ! k) = Inr (topics ! k)"
    by (simp_all add: nth_enumerate_eq)
  have f: "topic_id (topics ! k) = k \<and> document_count (topics ! k) = None"
    if "k < length topics" for k
    using that l e [of k] lda_topic_fields by simp
  have "map topic_id topics = [0 ..< length topics]"
    by (rule nth_equalityI) (simp_all add: f)
  moreover have "map document_count topics = replicate (length topics) None"
    by (rule nth_equalityI) (simp_all add: f)
  ultimately show ?thesis ..
qed

lemma extract_topics_lda_order:
  "map topic_id (extract_topics_lda sk nl texts n_topics)
     = [0 ..< length (extract_topics_lda sk nl texts n_topics)]
   \<and> map document_count (extract_topics_lda sk nl texts n_topics)
     = replicate (length (extract_topics_lda sk nl texts n_topics)) None"
proof -
  let ?cleaned = "filter (\<lambda>text. py_strip text \<noteq> []) (map (preprocess_text nl) texts)"
  show ?thesis
  proof (cases "lda_try sk ?cleaned n_topics")
    case (Inl e)
    then show ?thesis by (simp add: extract_topics_lda_def Let_def)
  next
    case (Inr topics)
    from lda_try_Inr [OF this] Inr show ?thesis
      by (simp add: extract_topics_lda_def Let_def)
  qed
qed

lemma extract_topics_kmeans_order:
  "sorted_wrt (\<lambda>a b. \<exists>m n. document_count a = Some m \<and> document_count b = Some n
                          \<and> (n < m \<or> (m = n \<and> topic_id a < topic_id b)))
     (extract_topics_kmeans sk nl texts n_topics)"
proof -
  let ?cleaned = "filter (\<lambda>text. py_strip text \<noteq> []) (map (preprocess_text nl) texts)"
  show ?thesis
  proof (cases "kmeans_try sk ?cleaned n_topics")
    case (Inl e)
    then show ?thesis by (simp add: extract_topics_kmeans_def Let_def)
  next
    case (Inr topics)
    then have "sorted_wrt (\<lambda>a b. \<exists>m n. document_count a = Some m \<and> document_count b = Some n
                          \<and> (n < m \<or> (m = n \<and> topic_id a < topic_id b))) topics"
      by (rule kmeans_try_sorted)
    with Inr show ?thesis by (simp add: extract_topics_kmeans_def Let_def)
  qed
qed

text \<open>
  C5 (as amended). The list returned by K-means extraction is sorted by \<open>document_count\<close>
  descending, and topics with equal \<open>document_count\<close> come in ascending order of their
  cluster index (\<open>topic_id\<close>); the order is a function of the input, \<open>n_topics\<close> and what
  the seeded clustering returns. LDA extraction returns its topics in component order,
  the \<open>k\<close>-th with \<open>topic_id = k\<close>, and none of them has a \<open>document_count\<close>.
\<close>

theorem extract_topics_order:
  "sorted_wrt (\<lambda>a b. \<exists>m n. document_count a = Some m \<and> document_count b = Some n
                          \<and> (n < m \<or> (m = n \<and> topic_id a < topic_id b)))
     (extract_topics_kmeans sk nl texts n_topics)
   \<and> map topic_id (extract_topics_lda sk nl texts n_topics)
       = [0 ..< length (extract_topics_lda sk nl texts n_topics)]
   \<and> map document_count (extract_topics_lda sk nl texts n_topics)
       = replicate (length (extract_topics_lda sk nl texts n_topics)) None"
  using extract_topics_kmeans_order extract_topics_lda_order by blast

lemma ex_pre:
  "map (preprocess_text example_nltk) example_texts = [''slow delivery'', ''support rude'', [], ''support late'']"
  unfolding example_texts_def by code_simp

lemma ex_kmeans:
  "extract_topics_kmeans example_sklearn example_nltk example_texts 2 =
     [\<lparr>topic_id = 1, topic_name = ''support + delivery'', topic_keywords = [''support'', ''delivery''],
       keyword_scores = Some [1, 0], document_count = Some 2, coherence_score = Some (Finite (1 / 2)),
       cluster_center = Some [0, 1], keyword_probabilities = None, topic_distribution = None\<rparr>,
      \<lparr>topic_id = 0, topic_name = ''delivery + support'', topic_keywords = [''delivery'', ''support''],
       keyword_scores = Some [1, 0], document_count = Some 1, coherence_score = Some (Finite (1 / 2)),
       cluster_center = Some [1, 0], keyword_probabilities = None, topic_distribution = None\<rparr>]"
  unfolding example_texts_def by code_simp

lemma ex_lda:
  "map document_count (extract_topics_lda example_sklearn example_nltk example_texts 2) = [None, None]"
  unfolding example_texts_def by code_simp

lemma py_strip_Nil: "py_strip [] = []"
  by (simp add: py_strip_def)

lemma sum_list_py_sort_desc:
  "sum_list (map g (py_sort_desc key xs)) = sum_list (map (g :: 'a \<Rightarrow> nat) xs)"
proof -
  have "sum_list (map g (py_sort_desc key xs)) = sum_mset (image_mset g (mset (py_sort_desc key xs)))"
    by (metis mset_map sum_mset_sum_list)
  also have "\<dots> = sum_mset (image_mset g (mset xs))"
    by (simp add: mset_py_sort_desc)
  also have "\<dots> = sum_list (map g xs)"
    by (metis mset_map sum_mset_sum_list)
  finally show ?thesis .
qed

text \<open>
  C10. When K-means extraction returns topics, every topic has a document count, and the
  counts add up to the number of input documents whose topic-mode normalization is not
  empty. This rests on what the libraries return: a lemmatizer that leaves no blank text
  behind, and a clustering that labels every document with a cluster below \<open>n_clusters\<close>.
\<close>

theorem kmeans_document_counts:
  assumes nonempty: "extract_topics_kmeans sk nl texts n_topics \<noteq> []"
    and nonblank: "\<forall>text \<in> set texts. preprocess_text nl text \<noteq> []
                    \<longrightarrow> py_strip (preprocess_text nl text) \<noteq> []"
    and contract: "\<forall>names M labels centers.
        tfidf_fit_transform sk (filter (\<lambda>text. py_strip text \<noteq> []) (map (preprocess_text nl) texts))
          = Inr (names, M) \<longrightarrow>
        kmeans_fit_predict sk
          (min n_topics (int (length (filter (\<lambda>text. py_strip text \<noteq> []) (map (preprocess_text nl) texts))))) M
          = Inr (labels, centers) \<longrightarrow>
        length labels = length (filter (\<lambda>text. py_strip text \<noteq> []) (map (preprocess_text nl) texts))
        \<and> (\<forall>l \<in> set labels.
              int l < min n_topics (int (length (filter (\<lambda>text. py_strip text \<noteq> []) (map (preprocess_text nl) texts)))))"
  shows "(\<forall>t \<in> set (extract_topics_kmeans sk nl texts n_topics). \<exists>n. document_count t = Some n)
       \<and> sum_list (map (\<lambda>t. case document_count t of Some n \<Rightarrow> n | None \<Rightarrow> 0)
                      (extract_topics_kmeans sk nl texts n_topics))
         = length (filter (\<lambda>text. preprocess_text nl text \<noteq> []) texts)"
proof -
  let ?cleaned = "filter (\<lambda>text. py_strip text \<noteq> []) (map (preprocess_text nl) texts)"
  let ?n = "min n_topics (int (length ?cleaned))"
  let ?res = "extract_topics_kmeans sk nl texts n_topics"
  let ?dc = "\<lambda>t. case document_count t of Some n \<Rightarrow> n | None \<Rightarrow> 0"
  from nonempty obtain topics where t: "kmeans_try sk ?cleaned n_topics = Inr topics"
    and res: "?res = topics"
    by (auto simp: extract_topics_kmeans_def Let_def split: if_splits sum.splits)
  from t obtain names M labels centers unsorted where
    v: "tfidf_fit_transform sk ?cleaned = Inr (names, M)"
    and k: "kmeans_fit_predict sk ?n M = Inr (labels, centers)"
    and l: "length unsorted = nat ?n"
    and u: "\<forall>k < length unsorted. topic_id (unsorted ! k) = k
        \<and> document_count (unsorted ! k) = Some (length (filter (\<lambda>l. l = k) labels))"
    and s: "topics = py_sort_desc (\<lambda>x. case document_count x of Some n \<Rightarrow> int n | None \<Rightarrow> 0) unsorted"
    by (rule kmeans_try_Inr)
  from contract v k have c: "length labels = length ?cleaned" "\<forall>l \<in> set labels. int l < ?n"
    by blast+
  have some: "\<exists>n. document_count t = Some n" if "t \<in> set topics" for t
  proof -
    from that have "t \<in> set unsorted" by (simp add: s set_py_sort_desc)
    then obtain k where "k < length unsorted" "t = unsorted ! k" by (auto simp: in_set_conv_nth)
    then show ?thesis using u by simp
  qed
  have "map ?dc unsorted = map (\<lambda>c. length (filter (\<lambda>l. l = c) labels)) [0 ..< length unsorted]"
    using u by (intro nth_equalityI) simp_all
  then have "sum_list (map ?dc unsorted)
             = sum_list (map (\<lambda>c. length (filter (\<lambda>l. l = c) labels)) [0 ..< length unsorted])"
    by simp
  also have "\<dots> = length labels"
  proof (rule count_partition)
    show "\<forall>l \<in> set labels. l < length unsorted" using c(2) l by auto
  qed
  finally have "sum_list (map ?dc topics) = length labels"
    by (simp add: s sum_list_py_sort_desc)
  moreover have "length ?cleaned = length (filter (\<lambda>text. preprocess_text nl text \<noteq> []) texts)"
  proof -
    have "length ?cleaned = length (filter (\<lambda>text. py_strip (preprocess_text nl text) \<noteq> []) texts)"
      by (simp add: filter_map comp_def)
    also have "filter (\<lambda>text. py_strip (preprocess_text nl text) \<noteq> []) texts
               = filter (\<lambda>text. preprocess_text nl text \<noteq> []) texts"
      using nonblank by (intro filter_cong) (auto simp: py_strip_Nil)
    finally show ?thesis .
  qed
  ultimately show ?thesis using some c(1) res by simp
qed

lemma ex_cleaned:
  "filter (\<lambda>text. py_strip text \<noteq> []) (map (preprocess_text example_nltk) example_texts)
   = [''slow delivery'', ''support rude'', ''support late'']"
  unfolding ex_pre by code_simp

theorem kmeans_document_counts_witness:
  "extract_topics_kmeans example_sklearn example_nltk example_texts 2 \<noteq> []
   \<and> sum_list (map (\<lambda>t. case document_count t of Some n \<Rightarrow> n | None \<Rightarrow> 0)
                  (extract_topics_kmeans example_sklearn example_nltk example_texts 2)) = 3
   \<and> length (filter (\<lambda>text. preprocess_text example_nltk text \<noteq> []) example_texts) = 3"
proof -
  have ne: "extract_topics_kmeans example_sklearn example_nltk example_texts 2 \<noteq> []"
    by (simp add: ex_kmeans)
  have len: "length (filter (\<lambda>text. preprocess_text example_nltk text \<noteq> []) example_texts) = 3"
  proof -
    have "length (filter (\<lambda>text. preprocess_text example_nltk text \<noteq> []) example_texts)
          = length (filter (\<lambda>x. x \<noteq> []) (map (preprocess_text example_nltk) example_texts))"
      by (simp add: filter_map comp_def)
    then show ?thesis by (simp add: ex_pre)
  qed
  have nb: "\<forall>text \<in> set example_texts. preprocess_text example_nltk text \<noteq> []
                    \<longrightarrow> py_strip (preprocess_text example_nltk text) \<noteq> []"
  proof -
    have "\<forall>x \<in> set (map (preprocess_text example_nltk) example_texts). x \<noteq> [] \<longrightarrow> py_strip x \<noteq> []"
      unfolding ex_pre by code_simp
    then show ?thesis by simp
  qed
  have ct: "\<forall>names M labels centers.
        tfidf_fit_transform example_sklearn (filter (\<lambda>text. py_strip text \<noteq> []) (map (preprocess_text example_nltk) example_texts))
          = Inr (names, M) \<longrightarrow>
        kmeans_fit_predict example_sklearn
          (min 2 (int (length (filter (\<lambda>text. py_strip text \<noteq> []) (map (preprocess_text example_nltk) example_texts))))) M
          = Inr (labels, centers) \<longrightarrow>
        length labels = length (filter (\<lambda>text. py_strip text \<noteq> []) (map (preprocess_text example_nltk) example_texts))
        \<and> (\<forall>l \<in> set labels.
              int l < min 2 (int (length (filter (\<lambda>text. py_strip text \<noteq> []) (map (preprocess_text example_nltk) example_texts)))))"
    unfolding ex_cleaned by (auto simp: example_sklearn_def example_rows_def)
  from kmeans_document_counts [OF ne nb ct] ne len show ?thesis by simp
qed

text \<open>
  The claim as first stated fails for LDA extraction: its topics come in component order
  and carry no \<open>document_count\<close> to be sorted by.
\<close>

theorem extract_topics_sorted_counterexample:
  "map document_count (extract_topics_lda example_sklearn example_nltk example_texts 2) = [None, None]
   \<and> map topic_id (extract_topics_lda example_sklearn example_nltk example_texts 2) = [0, 1]"
  unfolding example_texts_def by code_simp

section \<open>Assignment of topics to documents\<close>

lemma filter_concat_enumerate:
  assumes "\<And>k x a. a \<in> set (f (k, x)) \<Longrightarrow> key a = k"
  shows "filter (\<lambda>a. key a = d) (concat (map f (enumerate n xs)))
         = (if n \<le> d \<and> d < n + length xs then f (d, xs ! (d - n)) else [])"
proof (induction xs arbitrary: n)
  case Nil
  then show ?case by auto
next
  case (Cons x xs)
  have hd: "filter (\<lambda>a. key a = d) (f (n, x)) = (if d = n then f (n, x) else [])"
    using assms [of _ n x] by (auto simp: filter_empty_conv intro: filter_True)
  show ?case
  proof (cases "d = n")
    case True
    then show ?thesis using hd Cons.IH [of "Suc n"] by simp
  next
    case False
    then show ?thesis using hd Cons.IH [of "Suc n"]
      by (cases "n < d") (auto simp: Suc_diff_Suc less_Suc_eq_le nth_Cons')
  qed
qed

lemma map_snd_filter_enumerate:
  "map snd (filter (\<lambda>pt. P (snd pt)) (enumerate n xs)) = filter P xs"
  by (induction xs arbitrary: n) simp_all

lemma sorted_wrt_fst_enumerate: "sorted_wrt (\<lambda>a b. fst a < fst b) (enumerate n xs)"
  by (induction xs arbitrary: n) (auto simp: in_set_enumerate_eq)

lemma in_enumerate0: "pt \<in> set (enumerate 0 xs) \<Longrightarrow> fst pt < length xs \<and> snd pt = xs ! fst pt"
  by (cases pt) (simp add: in_set_enumerate_eq)

text \<open>The assignments of one document, read off the positions of their topics.\<close>

lemma doc_topic_scores_positions:
  fixes cleaned :: string and topics :: "topic list"
  defines "rel \<equiv> \<lambda>p. calculate_topic_relevance cleaned (topic_keywords (topics ! p))"
  obtains ps where
    "doc_topic_scores d cleaned topics = map (\<lambda>p. topic_assignment d cleaned (topics ! p)) ps"
    "length ps \<le> 3"
    "\<forall>p \<in> set ps. p < length topics \<and> 1 / 10 < rel p"
    "sorted_wrt (\<lambda>p q. rel q < rel p \<or> (rel p = rel q \<and> p < q)) ps"
    "\<forall>q < length topics. q \<notin> set ps \<longrightarrow> 1 / 10 < rel q \<longrightarrow>
        length ps = 3 \<and> (\<forall>p \<in> set ps. rel q < rel p \<or> (rel p = rel q \<and> p < q))"
proof -
  let ?r = "\<lambda>t. calculate_topic_relevance cleaned (topic_keywords t)"
  let ?R = "\<lambda>a b. ?r (snd b) < ?r (snd a) \<or> (?r (snd a) = ?r (snd b) \<and> fst a < (fst b :: nat))"
  define cand where "cand = filter (\<lambda>pt. 1 / 10 < ?r (snd pt)) (enumerate 0 topics)"
  define srt where "srt = py_sort_desc (\<lambda>pt. ?r (snd pt)) cand"
  define ps where "ps = map fst (take 3 srt)"
  have cand_el: "fst pt < length topics \<and> snd pt = topics ! fst pt \<and> 1 / 10 < ?r (snd pt)"
    if "pt \<in> set cand" for pt
    using that in_enumerate0 [of pt topics] by (simp add: cand_def)
  have srt_set: "set srt = set cand" by (simp add: srt_def set_py_sort_desc)
  have "sorted_wrt (\<lambda>a b. fst a < fst b) cand"
    unfolding cand_def by (intro sorted_wrt_filter sorted_wrt_fst_enumerate)
  then have sorted: "sorted_wrt ?R srt"
    unfolding srt_def by (rule py_sort_desc_sorted)
  have snd_el: "snd pt = topics ! fst pt" if "pt \<in> set (take 3 srt)" for pt
  proof -
    from that have "pt \<in> set srt" by (rule in_set_takeD)
    then have "pt \<in> set cand" using srt_set by simp
    then show ?thesis using cand_el by simp
  qed
  have ms: "map snd cand = filter (\<lambda>tpc. 1 / 10 < ?r tpc) topics"
    unfolding cand_def by (rule map_snd_filter_enumerate)
  have "doc_topic_scores d cleaned topics
        = take 3 (py_sort_desc relevance_score (map (topic_assignment d cleaned) (map snd cand)))"
    unfolding ms doc_topic_scores_def ..
  also have "\<dots> = take 3 (map (\<lambda>pt. topic_assignment d cleaned (snd pt)) srt)"
    by (simp add: py_sort_desc_map srt_def topic_assignment_def comp_def)
  also have "\<dots> = map (\<lambda>pt. topic_assignment d cleaned (snd pt)) (take 3 srt)"
    by (simp add: take_map)
  also have "\<dots> = map (\<lambda>p. topic_assignment d cleaned (topics ! p)) ps"
    unfolding ps_def using snd_el by simp
  finally have 1: "doc_topic_scores d cleaned topics
        = map (\<lambda>p. topic_assignment d cleaned (topics ! p)) ps" .
  have 2: "length ps \<le> 3" by (simp add: ps_def)
  have rel_eq: "rel (fst pt) = ?r (snd pt)" if "pt \<in> set srt" for pt
    using that cand_el srt_set by (simp add: rel_def)
  have 3: "\<forall>p \<in> set ps. p < length topics \<and> 1 / 10 < rel p"
  proof
    fix p assume "p \<in> set ps"
    then obtain pt where pt: "pt \<in> set (take 3 srt)" "p = fst pt" by (auto simp: ps_def)
    then have "pt \<in> set srt" by (meson in_set_takeD)
    then have "pt \<in> set cand" using srt_set by simp
    then show "p < length topics \<and> 1 / 10 < rel p"
      using cand_el [of pt] pt(2) by (auto simp: rel_def)
  qed
  have sorted': "sorted_wrt (\<lambda>a b. rel (fst b) < rel (fst a)
                    \<or> (rel (fst a) = rel (fst b) \<and> fst a < fst b)) srt"
    by (rule sorted_wrt_mono_rel [OF _ sorted]) (simp add: rel_eq)
  then have "sorted_wrt (\<lambda>a b. rel (fst b) < rel (fst a)
                    \<or> (rel (fst a) = rel (fst b) \<and> fst a < fst b)) (take 3 srt)"
    by (rule sorted_wrt_take)
  then have 4: "sorted_wrt (\<lambda>p q. rel q < rel p \<or> (rel p = rel q \<and> p < q)) ps"
    by (simp add: ps_def sorted_wrt_map)
  have 5: "\<forall>q < length topics. q \<notin> set ps \<longrightarrow> 1 / 10 < rel q \<longrightarrow>
        length ps = 3 \<and> (\<forall>p \<in> set ps. rel q < rel p \<or> (rel p = rel q \<and> p < q))"
  proof (intro allI impI)
    fix q assume q: "q < length topics" "q \<notin> set ps" "1 / 10 < rel q"
    have "(q, topics ! q) \<in> set cand"
      using q(1,3) by (simp add: cand_def rel_def in_set_enumerate_eq)
    then have "(q, topics ! q) \<in> set srt" using srt_set by simp
    moreover have "set srt = set (take 3 srt) \<union> set (drop 3 srt)"
      by (metis append_take_drop_id set_append)
    moreover have "(q, topics ! q) \<notin> set (take 3 srt)" using q(2) by (force simp: ps_def)
    ultimately have d: "(q, topics ! q) \<in> set (drop 3 srt)" by blast
    then have "drop 3 srt \<noteq> []" by auto
    then have len: "length ps = 3" by (simp add: ps_def)
    have "sorted_wrt (\<lambda>a b. rel (fst b) < rel (fst a)
                    \<or> (rel (fst a) = rel (fst b) \<and> fst a < fst b)) (take 3 srt @ drop 3 srt)"
      using sorted' by (simp only: append_take_drop_id)
    then have "\<forall>a \<in> set (take 3 srt). \<forall>b \<in> set (drop 3 srt).
                 rel (fst b) < rel (fst a) \<or> (rel (fst a) = rel (fst b) \<and> fst a < fst b)"
      unfolding sorted_wrt_append by blast
    with d have "\<forall>a \<in> set (take 3 srt). rel q < rel (fst a) \<or> (rel (fst a) = rel q \<and> fst a < q)"
      by force
    then have "\<forall>p \<in> set ps. rel q < rel p \<or> (rel p = rel q \<and> p < q)"
      by (simp add: ps_def)
    with len show "length ps = 3 \<and> (\<forall>p \<in> set ps. rel q < rel p \<or> (rel p = rel q \<and> p < q))"
      by simp
  qed
  show ?thesis using that [OF 1 2 3 4 5] .
qed

lemma doc_topic_scores_elem:
  assumes "a \<in> set (doc_topic_scores d cleaned topics)"
  shows "document_id a = d \<and> 1 / 10 < relevance_score a
       \<and> (\<exists>t \<in> set topics. relevance_score a = calculate_topic_relevance cleaned (topic_keywords t))"
proof -
  obtain ps where ps: "doc_topic_scores d cleaned topics = map (\<lambda>p. topic_assignment d cleaned (topics ! p)) ps"
    "\<forall>p \<in> set ps. p < length topics
        \<and> 1 / 10 < calculate_topic_relevance cleaned (topic_keywords (topics ! p))"
    by (rule doc_topic_scores_positions [of d cleaned topics]) blast
  from assms ps(1) obtain p where p: "p \<in> set ps" "a = topic_assignment d cleaned (topics ! p)"
    by auto
  with ps(2) have "p < length topics"
    "1 / 10 < calculate_topic_relevance cleaned (topic_keywords (topics ! p))" by blast+
  then show ?thesis using p(2) by (auto simp: topic_assignment_def)
qed

lemma assign_filter_document:
  "filter (\<lambda>a. document_id a = d) (assign_topics_to_documents nl texts topics)
   = (if topics \<noteq> [] \<and> d < length texts \<and> truthy (texts ! d) \<and> preprocess_text nl (texts ! d) \<noteq> []
      then doc_topic_scores d (preprocess_text nl (texts ! d)) topics else [])"
proof -
  define f where "f = (\<lambda>(doc_idx, text).
             if \<not> truthy text then []
             else let cleaned = preprocess_text nl text
                  in if cleaned = [] then []
                     else doc_topic_scores doc_idx cleaned topics)"
  have key: "document_id a = k" if "a \<in> set (f (k, x))" for k x a
    using that doc_topic_scores_elem [of a k "preprocess_text nl x" topics]
    by (auto simp: f_def Let_def split: if_splits)
  have "filter (\<lambda>a. document_id a = d) (concat (map f (enumerate 0 texts)))
        = (if 0 \<le> d \<and> d < 0 + length texts then f (d, texts ! (d - 0)) else [])"
    using key by (rule filter_concat_enumerate)
  then have c: "filter (\<lambda>a. document_id a = d) (concat (map f (enumerate 0 texts)))
        = (if d < length texts then f (d, texts ! d) else [])" by simp
  show ?thesis
  proof (cases "texts = [] \<or> topics = []")
    case True
    then show ?thesis by (auto simp: assign_topics_to_documents_def)
  next
    case False
    then have "assign_topics_to_documents nl texts topics = concat (map f (enumerate 0 texts))"
      by (simp add: assign_topics_to_documents_def f_def)
    then show ?thesis using c False by (simp add: f_def Let_def)
  qed
qed

text \<open>
  C4. \<open>assign_topics_to_documents\<close> returns at most three assignments for a document, in
  order of non-increasing relevance. For a non-empty document they are the assignments to
  the topics at positions \<open>ps\<close> of the topic list, ordered by relevance descending and,
  at equal relevance, by position ascending; a topic above the relevance floor that is
  left out comes after all three kept ones in that order.
\<close>

theorem assign_topics_top3:
  "length (filter (\<lambda>a. document_id a = d) (assign_topics_to_documents nl texts topics)) \<le> 3
   \<and> sorted_wrt (\<lambda>a b. relevance_score b \<le> relevance_score a)
        (filter (\<lambda>a. document_id a = d) (assign_topics_to_documents nl texts topics))
   \<and> (d < length texts \<and> truthy (texts ! d) \<longrightarrow>
        (\<exists>ps. filter (\<lambda>a. document_id a = d) (assign_topics_to_documents nl texts topics)
                = map (\<lambda>p. topic_assignment d (preprocess_text nl (texts ! d)) (topics ! p)) ps
             \<and> (\<forall>p \<in> set ps. p < length topics)
             \<and> sorted_wrt (\<lambda>p q.
                   calculate_topic_relevance (preprocess_text nl (texts ! d)) (topic_keywords (topics ! q))
                   < calculate_topic_relevance (preprocess_text nl (texts ! d)) (topic_keywords (topics ! p))
                   \<or> (calculate_topic_relevance (preprocess_text nl (texts ! d)) (topic_keywords (topics ! p))
                       = calculate_topic_relevance (preprocess_text nl (texts ! d)) (topic_keywords (topics ! q))
                      \<and> p < q)) ps
             \<and> (\<forall>q < length topics. q \<notin> set ps \<longrightarrow>
                   1 / 10 < calculate_topic_relevance (preprocess_text nl (texts ! d)) (topic_keywords (topics ! q)) \<longrightarrow>
                   length ps = 3
                   \<and> (\<forall>p \<in> set ps.
                        calculate_topic_relevance (preprocess_text nl (texts ! d)) (topic_keywords (topics ! q))
                        < calculate_topic_relevance (preprocess_text nl (texts ! d)) (topic_keywords (topics ! p))
                        \<or> (calculate_topic_relevance (preprocess_text nl (texts ! d)) (topic_keywords (topics ! p))
                            = calculate_topic_relevance (preprocess_text nl (texts ! d)) (topic_keywords (topics ! q))
                           \<and> p < q)))))"
proof -
  let ?A = "filter (\<lambda>a. document_id a = d) (assign_topics_to_documents nl texts topics)"
  let ?c = "preprocess_text nl (texts ! d)"
  let ?rel = "\<lambda>p. calculate_topic_relevance ?c (topic_keywords (topics ! p))"
  obtain ps where ps: "doc_topic_scores d ?c topics = map (\<lambda>p. topic_assignment d ?c (topics ! p)) ps"
    "length ps \<le> 3"
    "\<forall>p \<in> set ps. p < length topics \<and> 1 / 10 < ?rel p"
    "sorted_wrt (\<lambda>p q. ?rel q < ?rel p \<or> (?rel p = ?rel q \<and> p < q)) ps"
    "\<forall>q < length topics. q \<notin> set ps \<longrightarrow> 1 / 10 < ?rel q \<longrightarrow>
        length ps = 3 \<and> (\<forall>p \<in> set ps. ?rel q < ?rel p \<or> (?rel p = ?rel q \<and> p < q))"
    by (rule doc_topic_scores_positions [of d ?c topics])
  have srt: "sorted_wrt (\<lambda>a b. relevance_score b \<le> relevance_score a)
               (map (\<lambda>p. topic_assignment d ?c (topics ! p)) ps)"
    unfolding sorted_wrt_map
    by (rule sorted_wrt_mono_rel [OF _ ps(4)]) (auto simp: topic_assignment_def)
  show ?thesis
  proof (cases "topics \<noteq> [] \<and> d < length texts \<and> truthy (texts ! d) \<and> ?c \<noteq> []")
    case True
    then have A: "?A = map (\<lambda>p. topic_assignment d ?c (topics ! p)) ps"
      by (simp add: assign_filter_document ps(1))
    have "length ?A \<le> 3" using A ps(2) by simp
    moreover have "sorted_wrt (\<lambda>a b. relevance_score b \<le> relevance_score a) ?A"
      using A srt by simp
    ultimately show ?thesis using A ps(3,4,5) by blast
  next
    case False
    then have A: "?A = []" by (auto simp: assign_filter_document)
    have none: "\<not> 1 / 10 < ?rel q" if "d < length texts" "truthy (texts ! d)" "q < length topics" for q
    proof -
      from False that have "?c = []" by auto
      then have "?rel q = 0" by (simp add: calculate_topic_relevance_def)
      then show ?thesis by simp
    qed
    have "d < length texts \<and> truthy (texts ! d) \<longrightarrow>
        (\<exists>ps. ?A = map (\<lambda>p. topic_assignment d ?c (topics ! p)) ps
             \<and> (\<forall>p \<in> set ps. p < length topics)
             \<and> sorted_wrt (\<lambda>p q. ?rel q < ?rel p \<or> (?rel p = ?rel q \<and> p < q)) ps
             \<and> (\<forall>q < length topics. q \<notin> set ps \<longrightarrow> 1 / 10 < ?rel q \<longrightarrow>
                   length ps = 3 \<and> (\<forall>p \<in> set ps. ?rel q < ?rel p \<or> (?rel p = ?rel q \<and> p < q))))"
    proof
      assume h: "d < length texts \<and> truthy (texts ! d)"
      show "\<exists>ps. ?A = map (\<lambda>p. topic_assignment d ?c (topics ! p)) ps
             \<and> (\<forall>p \<in> set ps. p < length topics)
             \<and> sorted_wrt (\<lambda>p q. ?rel q < ?rel p \<or> (?rel p = ?rel q \<and> p < q)) ps
             \<and> (\<forall>q < length topics. q \<notin> set ps \<longrightarrow> 1 / 10 < ?rel q \<longrightarrow>
                   length ps = 3 \<and> (\<forall>p \<in> set ps. ?rel q < ?rel p \<or> (?rel p = ?rel q \<and> p < q)))"
        using A none h by (intro exI [of _ "[]"]) simp
    qed
    then show ?thesis using A by simp
  qed
qed

lemma ex_assign:
  "assign_topics_to_documents example_nltk example_texts example_topics =
     [\<lparr>document_id = 0, assigned_topic_id = 1, assigned_topic_name = ''support + delivery'',
       relevance_score = 27 / 50, keywords_found = [''delivery'']\<rparr>,
      \<lparr>document_id = 0, assigned_topic_id = 0, assigned_topic_name = ''delivery + support'',
       relevance_score = 27 / 50, keywords_found = [''delivery'']\<rparr>,
      \<lparr>document_id = 1, assigned_topic_id = 1, assigned_topic_name = ''support + delivery'',
       relevance_score = 27 / 50, keywords_found = [''support'']\<rparr>,
      \<lparr>document_id = 1, assigned_topic_id = 0, assigned_topic_name = ''delivery + support'',
       relevance_score = 27 / 50, keywords_found = [''support'']\<rparr>,
      \<lparr>document_id = 3, assigned_topic_id = 1, assigned_topic_name = ''support + delivery'',
       relevance_score = 27 / 50, keywords_found = [''support'']\<rparr>,
      \<lparr>document_id = 3, assigned_topic_id = 0, assigned_topic_name = ''delivery + support'',
       relevance_score = 27 / 50, keywords_found = [''support'']\<rparr>]"
  unfolding example_texts_def example_topics_def by code_simp

theorem assign_topics_top3_witness:
  "length (filter (\<lambda>a. document_id a = 0)
             (assign_topics_to_documents example_nltk example_texts example_topics)) \<le> 3
   \<and> map assigned_topic_id (filter (\<lambda>a. document_id a = 0)
             (assign_topics_to_documents example_nltk example_texts example_topics)) = [1, 0]
   \<and> map relevance_score (filter (\<lambda>a. document_id a = 0)
             (assign_topics_to_documents example_nltk example_texts example_topics)) = [27 / 50, 27 / 50]"
  using assign_topics_top3 [of 0 example_nltk example_texts example_topics]
  by (simp add: ex_assign)





section \<open>Topic summary\<close>









text \<open>The percentage is a float: 23 documents of 80 come out as 28.7 per cent.\<close>

lemma percentage_float: "py_round (fl (fl (23 / 80) * 100)) 1 = fl (287 / 10)"
  by code_simp






end
